theory Spec2Isabelle
  imports Complex_Main "HOL-Library.Word" "HOL-Library.Multiset" "HOL-Library.Char_ord" "HOL-Library.List_Lexorder"
begin

section \<open>Data model (package api)\<close>

text \<open>
  A point in time is the number of nanoseconds since the epoch; a duration is a number of
  nanoseconds. Go's \<^verbatim>\<open>int64\<close> sizes are 64-bit words, so that \<^verbatim>\<open>+=\<close> wraps as it does
  in the program. Go's \<^verbatim>\<open>int\<close> counters (lengths, page numbers, day counts) are integers.
\<close>

type_synonym time = int
type_synonym duration = int

definition Second :: duration where
  "Second = 1000000000"

record Image =
  Architecture :: string
  OS :: string
  Size :: "64 word"

record Tag =
  Name :: string
  LastUpdated :: time
  FullSize :: "64 word"
  Images :: "Image list"

section \<open>Retention policies (package policy)\<close>

text \<open>
  \<^verbatim>\<open>RetentionPolicy\<close> is an interface with three implementations in the repository. A
  count policy holds its \<^verbatim>\<open>keepSet map[string]bool\<close>, a days policy its day count, a
  composite policy its sub-policies and its mode. \<^verbatim>\<open>PolicyMode\<close> is declared as
  \<^verbatim>\<open>type PolicyMode int\<close>; it stays an integer here, so that values other than the two
  named constants reach the \<^verbatim>\<open>default\<close> branch of the \<^verbatim>\<open>switch\<close>.
\<close>

type_synonym PolicyMode = int

definition PolicyModeOR :: PolicyMode where
  "PolicyModeOR = 0"

definition PolicyModeAND :: PolicyMode where
  "PolicyModeAND = 1"

datatype RetentionPolicy =
    CountRetentionPolicy "string \<rightharpoonup> bool"
  | DaysRetentionPolicy int
  | CompositePolicy "RetentionPolicy list" PolicyMode

definition min_int :: "int \<Rightarrow> int \<Rightarrow> int" where
  "min_int a b = (if a < b then a else b)"

text \<open>
  The loop of \<^verbatim>\<open>NewCountRetentionPolicy\<close>:
  \<^verbatim>\<open>for i := 0; i < min(count, len(sorted)); i++ { keepSet[sorted[i].Name] = true }\<close>.
  The index stays below \<^verbatim>\<open>len(sorted)\<close>, so \<^verbatim>\<open>sorted[i]\<close> never panics.
\<close>

function keepSet_loop :: "int \<Rightarrow> int \<Rightarrow> Tag list \<Rightarrow> (string \<rightharpoonup> bool) \<Rightarrow> (string \<rightharpoonup> bool)" where
  "keepSet_loop i cnt sortedTags keepSet =
     (if i < min_int cnt (int (length sortedTags))
      then keepSet_loop (i + 1) cnt sortedTags (keepSet(Name (sortedTags ! nat i) \<mapsto> True))
      else keepSet)"
  by pat_completeness auto
termination
  by (relation "measure (\<lambda>(i, cnt, sortedTags, keepSet). nat (int (length sortedTags) - i))")
     (auto simp: min_int_def split: if_splits)

definition NewCountRetentionPolicy :: "int \<Rightarrow> Tag list \<Rightarrow> RetentionPolicy" where
  "NewCountRetentionPolicy cnt sortedTags = CountRetentionPolicy (keepSet_loop 0 cnt sortedTags Map.empty)"

text \<open>
  Reading a Go map at a missing key gives the zero value, \<^verbatim>\<open>false\<close>.
\<close>

definition map_index :: "(string \<rightharpoonup> bool) \<Rightarrow> string \<Rightarrow> bool" where
  "map_index m k = (case m k of None \<Rightarrow> False | Some b \<Rightarrow> b)"

text \<open>
  \<^verbatim>\<open>time.Now().AddDate(0, 0, -days)\<close> is taken with days of 24 hours. The reading of the
  clock is the argument \<open>now\<close>.
\<close>

definition AddDate_days :: "time \<Rightarrow> int \<Rightarrow> time" where
  "AddDate_days t d = t + d * (86400 * Second)"

fun ShouldKeep :: "time \<Rightarrow> RetentionPolicy \<Rightarrow> Tag \<Rightarrow> bool"
  and or_loop :: "time \<Rightarrow> RetentionPolicy list \<Rightarrow> Tag \<Rightarrow> bool"
  and and_loop :: "time \<Rightarrow> RetentionPolicy list \<Rightarrow> Tag \<Rightarrow> bool" where
  "ShouldKeep now (CountRetentionPolicy keepSet) tag = map_index keepSet (Name tag)"
| "ShouldKeep now (DaysRetentionPolicy days) tag = (AddDate_days now (- days) < LastUpdated tag)"
| "ShouldKeep now (CompositePolicy policies mode) tag =
     (if length policies = 0 then True
      else if mode = PolicyModeOR then or_loop now policies tag
      else if mode = PolicyModeAND then and_loop now policies tag
      else False)"
| "or_loop now [] tag = False"
| "or_loop now (p # ps) tag = (if ShouldKeep now p tag then True else or_loop now ps tag)"
| "and_loop now [] tag = True"
| "and_loop now (p # ps) tag = (if \<not> ShouldKeep now p tag then False else and_loop now ps tag)"

section \<open>Filters (package filter)\<close>

text \<open>
  A compiled \<^verbatim>\<open>*regexp.Regexp\<close> is used through two of its methods only; the model holds
  a compiled pattern as the pair of these methods.
\<close>

record Regexp =
  MatchString :: "string \<Rightarrow> bool"
  ReplaceAllString :: "string \<Rightarrow> string \<Rightarrow> string"

datatype TagFilter =
    RegexFilter Regexp bool
  | CompositeFilter "TagFilter list"
  | AlwaysMatchFilter

fun Matches :: "TagFilter \<Rightarrow> string \<Rightarrow> bool"
  and Matches_loop :: "TagFilter list \<Rightarrow> string \<Rightarrow> bool" where
  "Matches (RegexFilter pattern invert) tag =
     (let matches = MatchString pattern tag in if invert then \<not> matches else matches)"
| "Matches (CompositeFilter filters) tag = Matches_loop filters tag"
| "Matches AlwaysMatchFilter tag = True"
| "Matches_loop [] tag = True"
| "Matches_loop (f # fs) tag = (if \<not> Matches f tag then False else Matches_loop fs tag)"

fun FilterTags_loop :: "TagFilter \<Rightarrow> Tag list \<Rightarrow> Tag list \<Rightarrow> Tag list" where
  "FilterTags_loop f [] filtered = filtered"
| "FilterTags_loop f (tag # tags) filtered =
     (if Matches f (Name tag) then FilterTags_loop f tags (filtered @ [tag])
      else FilterTags_loop f tags filtered)"

definition FilterTags :: "Tag list \<Rightarrow> TagFilter option \<Rightarrow> Tag list" where
  "FilterTags tags f = (case f of None \<Rightarrow> tags | Some flt \<Rightarrow> FilterTags_loop flt tags [])"

section \<open>Sorters (package sort)\<close>

text \<open>
  The sorters call three functions of libraries outside the repository: \<^verbatim>\<open>sort.Slice\<close> of
  the standard library and \<^verbatim>\<open>semver.IsValid\<close>, \<^verbatim>\<open>semver.Compare\<close> of
  \<^verbatim>\<open>golang.org/x/mod\<close>. They are parameters of the model. \<^verbatim>\<open>sort.Slice\<close> receives the
  comparison as a function of two elements, the program's closure \<^verbatim>\<open>less(i, j)\<close> read at
  the elements in positions \<^verbatim>\<open>i\<close> and \<^verbatim>\<open>j\<close>.
\<close>

record stdlib =
  sort_Slice :: "(Tag \<Rightarrow> Tag \<Rightarrow> bool) \<Rightarrow> Tag list \<Rightarrow> Tag list"
  semver_IsValid :: "string \<Rightarrow> bool"
  semver_Compare :: "string \<Rightarrow> string \<Rightarrow> int"

datatype TagSorter =
    LexicographicalSorter
  | SemverSorter "Regexp option"

definition stripPrefix :: "Regexp option \<Rightarrow> string \<Rightarrow> string" where
  "stripPrefix stripPrefixPattern v =
     (case stripPrefixPattern of Some re \<Rightarrow> ReplaceAllString re v '''' | None \<Rightarrow> v)"

definition HasPrefix :: "string \<Rightarrow> string \<Rightarrow> bool" where
  "HasPrefix s p = (take (length p) s = p)"

definition normalizeVersion :: "string \<Rightarrow> string" where
  "normalizeVersion v = (if \<not> HasPrefix v ''v'' then ''v'' @ v else v)"

fun semver_split :: "stdlib \<Rightarrow> Regexp option \<Rightarrow> Tag list \<Rightarrow> Tag list \<Rightarrow> Tag list \<Rightarrow> Tag list \<times> Tag list" where
  "semver_split lib pat [] semverTags nonSemverTags = (semverTags, nonSemverTags)"
| "semver_split lib pat (tag # tags) semverTags nonSemverTags =
     (let stripped = stripPrefix pat (Name tag);
          normalized = normalizeVersion stripped
      in if semver_IsValid lib normalized
         then semver_split lib pat tags (semverTags @ [tag]) nonSemverTags
         else semver_split lib pat tags semverTags (nonSemverTags @ [tag]))"

text \<open>
  Go compares strings byte by byte; \<open>(<)\<close> on \<open>string\<close> is the same lexicographic order
  on the character codes.
\<close>

definition SemverSorter_Sort :: "stdlib \<Rightarrow> Regexp option \<Rightarrow> Tag list \<Rightarrow> Tag list" where
  "SemverSorter_Sort lib pat tags =
     (case semver_split lib pat tags [] [] of (semverTags, nonSemverTags) \<Rightarrow>
        sort_Slice lib
          (\<lambda>a b. semver_Compare lib (normalizeVersion (stripPrefix pat (Name a)))
                                     (normalizeVersion (stripPrefix pat (Name b))) > 0)
          semverTags
        @ sort_Slice lib (\<lambda>a b. Name a > Name b) nonSemverTags)"

definition LexicographicalSorter_Sort :: "stdlib \<Rightarrow> Tag list \<Rightarrow> Tag list" where
  "LexicographicalSorter_Sort lib tags = sort_Slice lib (\<lambda>a b. Name a > Name b) tags"

definition Sort :: "stdlib \<Rightarrow> TagSorter \<Rightarrow> Tag list \<Rightarrow> Tag list" where
  "Sort lib s tags =
     (case s of LexicographicalSorter \<Rightarrow> LexicographicalSorter_Sort lib tags
      | SemverSorter pat \<Rightarrow> SemverSorter_Sort lib pat tags)"

section \<open>Transport (package api)\<close>

subsection \<open>Errors\<close>

text \<open>
  The sentinel errors of \<^verbatim>\<open>errors.go\<close>, the \<^verbatim>\<open>APIError\<close> struct (fields in the order of
  its declaration: status code, message, endpoint), an error value handed over by a library
  (context, \<^verbatim>\<open>net/http\<close>, \<^verbatim>\<open>encoding/json\<close>) with its text, and the two shapes of
  \<^verbatim>\<open>fmt.Errorf\<close> in the program: \<^verbatim>\<open>"prefix: %w"\<close> wrapping an error, and
  \<^verbatim>\<open>"%w: %s"\<close> wrapping a sentinel followed by the text of a library error.
\<close>

datatype error =
    ErrUnauthorized
  | ErrNotFound
  | ErrRateLimited
  | ErrNetworkError
  | ErrInvalidResponse
  | APIError int string string
  | LibraryError string
  | Errorf string error
  | Errorf_s error string

definition NewAPIError :: "int \<Rightarrow> string \<Rightarrow> string \<Rightarrow> error" where
  "NewAPIError statusCode endpoint message = APIError statusCode message endpoint"

subsection \<open>Messages\<close>

record LoginRequest =
  Username :: string
  Password :: string

record LoginResponse =
  Token :: string

record TagsResponse =
  Count :: int
  Next :: "string option"
  Previous :: "string option"
  Results :: "Tag list"

text \<open>The \<^verbatim>\<open>Name\<close> field of a repository is \<open>RepoName\<close> here, apart from the tag's.\<close>

record Repository =
  User :: string
  RepoName :: string
  Namespace :: string
  Description :: string

record Request =
  Method :: string
  URL :: string
  ReqBody :: string
  Header :: "string \<rightharpoonup> string"

record Response =
  StatusCode :: int
  Body :: string

subsection \<open>The client and its rate limiter\<close>

text \<open>
  \<^verbatim>\<open>golang.org/x/time/rate\<close>: a \<^verbatim>\<open>Limit\<close> is a number of events per second,
  \<^verbatim>\<open>Every(interval)\<close> is the limit of one event per \<^verbatim>\<open>interval\<close> (infinite for an
  interval that is not positive), and \<^verbatim>\<open>NewLimiter(r, b)\<close> is a token bucket of size
  \<^verbatim>\<open>b\<close> refilled at \<^verbatim>\<open>r\<close> tokens per second.
\<close>

datatype Limit = Limit_Inf | PerSecond rat

record Limiter =
  limiter_limit :: Limit
  limiter_burst :: int

definition rate_Every :: "duration \<Rightarrow> Limit" where
  "rate_Every interval =
     (if interval \<le> 0 then Limit_Inf else PerSecond (1 / (of_int interval / of_int Second)))"

definition rate_NewLimiter :: "Limit \<Rightarrow> int \<Rightarrow> Limiter" where
  "rate_NewLimiter r b = \<lparr>limiter_limit = r, limiter_burst = b\<rparr>"

definition DefaultBaseURL :: string where
  "DefaultBaseURL = ''https://hub.docker.com/v2''"

definition DefaultPageSize :: int where
  "DefaultPageSize = 100"

record Client =
  baseURL :: string
  httpClient_Timeout :: duration
  token :: string
  username :: string
  limiter :: Limiter

definition NewClient :: Client where
  "NewClient = \<lparr>baseURL = DefaultBaseURL, httpClient_Timeout = 30 * Second,
                 token = '''', username = '''',
                 limiter = rate_NewLimiter (rate_Every Second) 5\<rparr>"

subsection \<open>The outside world\<close>

text \<open>
  What the client cannot decide is an argument of the model: the outcome of the \<open>k\<close>-th
  \<^verbatim>\<open>limiter.Wait\<close> of a run (\<open>None\<close>: a permit; \<open>Some\<close>: the error of a cancelled
  context), the outcome of the \<open>k\<close>-th \<^verbatim>\<open>httpClient.Do\<close> on a request (a connection
  error or a response), whether \<^verbatim>\<open>http.NewRequestWithContext\<close> accepts a method and URL,
  and the JSON encoder and decoders. What the client does to the world is written to a
  trace: each permit request, each request sent, each sleep with its duration.
\<close>

record env =
  limiter_Wait :: "nat \<Rightarrow> string option"
  httpClient_Do :: "nat \<Rightarrow> Request \<Rightarrow> string + Response"
  http_NewRequest_err :: "string \<Rightarrow> string \<Rightarrow> string option"
  json_Marshal :: "LoginRequest \<Rightarrow> string + string"
  json_Decode_login :: "string \<Rightarrow> string + LoginResponse"
  json_Decode_tags :: "string \<Rightarrow> string + TagsResponse"
  json_Decode_repo :: "string \<Rightarrow> string + Repository"

datatype event = EvWait | EvDo Request | EvSleep duration

record world =
  waits :: nat
  dos :: nat
  trace :: "event list"

definition call_Wait :: "env \<Rightarrow> world \<Rightarrow> string option \<times> world" where
  "call_Wait e w = (limiter_Wait e (waits w), w\<lparr>waits := waits w + 1, trace := trace w @ [EvWait]\<rparr>)"

definition call_Do :: "env \<Rightarrow> Request \<Rightarrow> world \<Rightarrow> (string + Response) \<times> world" where
  "call_Do e req w = (httpClient_Do e (dos w) req, w\<lparr>dos := dos w + 1, trace := trace w @ [EvDo req]\<rparr>)"

definition call_Sleep :: "duration \<Rightarrow> world \<Rightarrow> world" where
  "call_Sleep d w = w\<lparr>trace := trace w @ [EvSleep d]\<rparr>"

definition NewRequest :: "env \<Rightarrow> string \<Rightarrow> string \<Rightarrow> string \<Rightarrow> string + Request" where
  "NewRequest e m url body =
     (case http_NewRequest_err e m url of
        Some err \<Rightarrow> Inl err
      | None \<Rightarrow> Inr \<lparr>Method = m, URL = url, ReqBody = body, Header = Map.empty\<rparr>)"

subsection \<open>doRequest\<close>

text \<open>
  The backoff loop \<^verbatim>\<open>for i := 0; i < 5; i++\<close> of \<^verbatim>\<open>doRequest\<close>, entered after a first
  response with status 429: sleep \<^verbatim>\<open>1<<uint(i)\<close> seconds, send the request again, return
  on a connection error or on a status other than 429.
\<close>

function retry_loop :: "env \<Rightarrow> Request \<Rightarrow> nat \<Rightarrow> world \<Rightarrow> (error + Response) \<times> world" where
  "retry_loop e req i w =
     (if i < 5 then
        (let wait = push_bit i 1 * Second;
             w1 = call_Sleep wait w
         in case call_Do e req w1 of
              (Inl err, w2) \<Rightarrow> (Inl (Errorf_s ErrNetworkError err), w2)
            | (Inr resp, w2) \<Rightarrow>
                if StatusCode resp \<noteq> 429 then (Inr resp, w2)
                else retry_loop e req (i + 1) w2)
      else (Inl ErrRateLimited, w))"
  by pat_completeness auto
termination
  by (relation "measure (\<lambda>(e, req, i, w). 5 - i)") auto

text \<open>Lines 94 to 97: the authorization header, set when the client holds a token.\<close>

definition authorize :: "Client \<Rightarrow> Request \<Rightarrow> Request" where
  "authorize c req =
     (if token c \<noteq> ''''
      then req\<lparr>Header := (Header req)(''Authorization'' \<mapsto> ''JWT '' @ token c)\<rparr>
      else req)"

definition doRequest :: "env \<Rightarrow> Client \<Rightarrow> Request \<Rightarrow> world \<Rightarrow> (error + Response) \<times> world" where
  "doRequest e c req w =
     (case call_Wait e w of
        (Some err, w1) \<Rightarrow> (Inl (Errorf ''rate limiter error'' (LibraryError err)), w1)
      | (None, w1) \<Rightarrow>
          (let req1 = authorize c req
           in case call_Do e req1 w1 of
                (Inl err, w2) \<Rightarrow> (Inl (Errorf_s ErrNetworkError err), w2)
              | (Inr resp, w2) \<Rightarrow>
                  if StatusCode resp = 429 then retry_loop e req1 0 w2
                  else (Inr resp, w2)))"

subsection \<open>The four calls\<close>

definition Authenticate :: "env \<Rightarrow> Client \<Rightarrow> string \<Rightarrow> string \<Rightarrow> world \<Rightarrow> (error option \<times> Client) \<times> world" where
  "Authenticate e c uname password w =
     (let loginReq = \<lparr>Username = uname, Password = password\<rparr>
      in case json_Marshal e loginReq of
           Inl err \<Rightarrow> ((Some (Errorf ''failed to marshal login request'' (LibraryError err)), c), w)
         | Inr body \<Rightarrow>
             (case NewRequest e ''POST'' (baseURL c @ ''/users/login/'') body of
                Inl err \<Rightarrow> ((Some (Errorf ''failed to create request'' (LibraryError err)), c), w)
              | Inr req0 \<Rightarrow>
                  (let req = req0\<lparr>Header := (Header req0)(''Content-Type'' \<mapsto> ''application/json'')\<rparr>
                   in case doRequest e c req w of
                        (Inl err, w1) \<Rightarrow> ((Some err, c), w1)
                      | (Inr resp, w1) \<Rightarrow>
                          if StatusCode resp \<noteq> 200
                          then ((Some (NewAPIError (StatusCode resp) ''/users/login/'' (Body resp)), c), w1)
                          else (case json_Decode_login e (Body resp) of
                                  Inl err \<Rightarrow>
                                    ((Some (Errorf ''failed to decode login response'' (LibraryError err)), c), w1)
                                | Inr loginResp \<Rightarrow>
                                    ((None, c\<lparr>token := Token loginResp, username := uname\<rparr>), w1)))))"

definition AuthenticateWithToken :: "Client \<Rightarrow> string \<Rightarrow> Client" where
  "AuthenticateWithToken c tok = c\<lparr>token := tok\<rparr>"

text \<open>The verb \<^verbatim>\<open>%d\<close> of \<^verbatim>\<open>fmt.Sprintf\<close>: an integer in decimal.\<close>

fun digits :: "nat \<Rightarrow> string" where
  "digits n = (if n < 10 then [char_of (48 + n)] else digits (n div 10) @ [char_of (48 + n mod 10)])"

definition Sprintf_d :: "int \<Rightarrow> string" where
  "Sprintf_d i = (if i < 0 then CHR ''-'' # digits (nat (- i)) else digits (nat i))"

definition tags_url :: "Client \<Rightarrow> string \<Rightarrow> int \<Rightarrow> string" where
  "tags_url c repo page =
     baseURL c @ ''/repositories/'' @ repo @ ''/tags/?page='' @ Sprintf_d page
       @ ''&page_size='' @ Sprintf_d DefaultPageSize"

text \<open>
  One turn of the loop of \<^verbatim>\<open>ListTags\<close>, from building the URL to decoding the page:
  the call \<^verbatim>\<open>listPage\<close> of the specification.
\<close>

definition ListTags_page :: "env \<Rightarrow> Client \<Rightarrow> string \<Rightarrow> int \<Rightarrow> world \<Rightarrow> (error + TagsResponse) \<times> world" where
  "ListTags_page e c repo page w =
     (let url = tags_url c repo page
      in case NewRequest e ''GET'' url '''' of
           Inl err \<Rightarrow> (Inl (Errorf ''failed to create request'' (LibraryError err)), w)
         | Inr req \<Rightarrow>
             (case doRequest e c req w of
                (Inl err, w1) \<Rightarrow> (Inl err, w1)
              | (Inr resp, w1) \<Rightarrow>
                  if StatusCode resp = 404 then (Inl ErrNotFound, w1)
                  else if StatusCode resp = 401 then (Inl ErrUnauthorized, w1)
                  else if StatusCode resp \<noteq> 200
                  then (Inl (NewAPIError (StatusCode resp) url (Body resp)), w1)
                  else (case json_Decode_tags e (Body resp) of
                          Inl err \<Rightarrow> (Inl (Errorf ''failed to decode tags response'' (LibraryError err)), w1)
                        | Inr tagsResp \<Rightarrow> (Inr tagsResp, w1))))"

text \<open>
  The loop \<^verbatim>\<open>for { ... }\<close> of \<^verbatim>\<open>ListTags\<close> has no bound: a server whose every page
  names a next page keeps it running. The model is a partial function; \<open>None\<close> is a run
  that does not return.
\<close>

partial_function (option) ListTags_loop ::
  "env \<Rightarrow> Client \<Rightarrow> string \<Rightarrow> Tag list \<Rightarrow> int \<Rightarrow> world \<Rightarrow> ((error + Tag list) \<times> world) option" where
  "ListTags_loop e c repo allTags page w =
     (case ListTags_page e c repo page w of
        (Inl err, w1) \<Rightarrow> Some (Inl err, w1)
      | (Inr tagsResp, w1) \<Rightarrow>
          (let allTags1 = allTags @ Results tagsResp
           in if Next tagsResp = None \<or> Next tagsResp = Some ''''
              then Some (Inr allTags1, w1)
              else ListTags_loop e c repo allTags1 (page + 1) w1))"

definition ListTags :: "env \<Rightarrow> Client \<Rightarrow> string \<Rightarrow> world \<Rightarrow> ((error + Tag list) \<times> world) option" where
  "ListTags e c repo w = ListTags_loop e c repo [] 1 w"

definition DeleteTag :: "env \<Rightarrow> Client \<Rightarrow> string \<Rightarrow> string \<Rightarrow> world \<Rightarrow> error option \<times> world" where
  "DeleteTag e c repo tag w =
     (let url = baseURL c @ ''/repositories/'' @ repo @ ''/tags/'' @ tag @ ''/''
      in case NewRequest e ''DELETE'' url '''' of
           Inl err \<Rightarrow> (Some (Errorf ''failed to create request'' (LibraryError err)), w)
         | Inr req \<Rightarrow>
             (case doRequest e c req w of
                (Inl err, w1) \<Rightarrow> (Some err, w1)
              | (Inr resp, w1) \<Rightarrow>
                  if StatusCode resp = 404 then (Some ErrNotFound, w1)
                  else if StatusCode resp = 401 then (Some ErrUnauthorized, w1)
                  else if StatusCode resp \<noteq> 204 \<and> StatusCode resp \<noteq> 200
                  then (Some (NewAPIError (StatusCode resp) url (Body resp)), w1)
                  else (None, w1)))"

definition GetRepository :: "env \<Rightarrow> Client \<Rightarrow> string \<Rightarrow> world \<Rightarrow> (error + Repository) \<times> world" where
  "GetRepository e c repo w =
     (let url = baseURL c @ ''/repositories/'' @ repo @ ''/''
      in case NewRequest e ''GET'' url '''' of
           Inl err \<Rightarrow> (Inl (Errorf ''failed to create request'' (LibraryError err)), w)
         | Inr req \<Rightarrow>
             (case doRequest e c req w of
                (Inl err, w1) \<Rightarrow> (Inl err, w1)
              | (Inr resp, w1) \<Rightarrow>
                  if StatusCode resp = 404 then (Inl ErrNotFound, w1)
                  else if StatusCode resp = 401 then (Inl ErrUnauthorized, w1)
                  else if StatusCode resp \<noteq> 200
                  then (Inl (NewAPIError (StatusCode resp) url (Body resp)), w1)
                  else (case json_Decode_repo e (Body resp) of
                          Inl err \<Rightarrow>
                            (Inl (Errorf ''failed to decode repository response'' (LibraryError err)), w1)
                        | Inr repository \<Rightarrow> (Inr repository, w1))))"

section \<open>Orchestrator (package cleaner)\<close>

text \<open>
  The logger and the \<^verbatim>\<open>verbose\<close> flag only write log lines and are left out. The three
  collaborators are interface values that may be \<^verbatim>\<open>nil\<close>: options here. The clock read by
  the days policy is the argument \<open>now\<close> of a run.
\<close>

record Cleaner =
  client :: Client
  filter' :: "TagFilter option"
  policy :: "RetentionPolicy option"
  sorter :: "TagSorter option"
  dryRun :: bool

record CleanResult =
  TotalTags :: int
  FilteredTags :: int
  KeptTags :: int
  DeletedTags :: "string list"
  Errors :: "error list"
  TotalSize :: "64 word"
  ReclaimedSize :: "64 word"

definition CleanResult_zero :: CleanResult where
  "CleanResult_zero = \<lparr>TotalTags = 0, FilteredTags = 0, KeptTags = 0, DeletedTags = [],
                         Errors = [], TotalSize = 0, ReclaimedSize = 0\<rparr>"

text \<open>\<^verbatim>\<open>for _, tag := range tags { acc += tag.FullSize }\<close>, in 64-bit arithmetic.\<close>

fun add_sizes :: "Tag list \<Rightarrow> 64 word \<Rightarrow> 64 word" where
  "add_sizes [] acc = acc"
| "add_sizes (tag # tags) acc = add_sizes tags (acc + FullSize tag)"

text \<open>Step 4: \<^verbatim>\<open>c.policy != nil && c.policy.ShouldKeep(tag)\<close> decides the list a tag joins.\<close>

fun classify_loop :: "time \<Rightarrow> RetentionPolicy option \<Rightarrow> Tag list \<Rightarrow> Tag list \<Rightarrow> Tag list \<Rightarrow> Tag list \<times> Tag list" where
  "classify_loop now pol [] tagsToKeep tagsToDelete = (tagsToKeep, tagsToDelete)"
| "classify_loop now pol (tag # tags) tagsToKeep tagsToDelete =
     (if (case pol of None \<Rightarrow> False | Some p \<Rightarrow> ShouldKeep now p tag)
      then classify_loop now pol tags (tagsToKeep @ [tag]) tagsToDelete
      else classify_loop now pol tags tagsToKeep (tagsToDelete @ [tag]))"

fun dryRun_loop :: "Tag list \<Rightarrow> CleanResult \<Rightarrow> CleanResult" where
  "dryRun_loop [] result = result"
| "dryRun_loop (tag # tags) result =
     dryRun_loop tags (result\<lparr>DeletedTags := DeletedTags result @ [Name tag]\<rparr>)"

fun delete_loop :: "env \<Rightarrow> Client \<Rightarrow> string \<Rightarrow> Tag list \<Rightarrow> CleanResult \<Rightarrow> world \<Rightarrow> CleanResult \<times> world" where
  "delete_loop e c repo [] result w = (result, w)"
| "delete_loop e c repo (tag # tags) result w =
     (case DeleteTag e c repo (Name tag) w of
        (Some err, w1) \<Rightarrow>
          delete_loop e c repo tags
            (result\<lparr>Errors := Errors result @ [Errorf (''failed to delete tag '' @ Name tag) err]\<rparr>) w1
      | (None, w1) \<Rightarrow>
          delete_loop e c repo tags (result\<lparr>DeletedTags := DeletedTags result @ [Name tag]\<rparr>) w1)"

text \<open>Step 2, the tags that pass the filter, and steps 3 and 4 on them.\<close>

definition post_filter :: "Cleaner \<Rightarrow> Tag list \<Rightarrow> Tag list" where
  "post_filter c tags = (case filter' c of Some f \<Rightarrow> FilterTags tags (Some f) | None \<Rightarrow> tags)"

definition classify :: "stdlib \<Rightarrow> time \<Rightarrow> Cleaner \<Rightarrow> Tag list \<Rightarrow> Tag list \<times> Tag list" where
  "classify lib now c filtered =
     (let sortedTags = (case sorter c of Some s \<Rightarrow> Sort lib s filtered | None \<Rightarrow> filtered)
      in classify_loop now (policy c) sortedTags [] [])"

text \<open>\<^verbatim>\<open>Clean\<close> from the line after the fetch, on the fetched tags.\<close>

definition Clean_fetched :: "stdlib \<Rightarrow> env \<Rightarrow> time \<Rightarrow> Cleaner \<Rightarrow> string \<Rightarrow> Tag list \<Rightarrow> world \<Rightarrow> CleanResult \<times> world" where
  "Clean_fetched lib e now c repo tags w =
     (let result = CleanResult_zero\<lparr>TotalTags := int (length tags)\<rparr>
      in if TotalTags result = 0 then (result, w)
         else
           (let result = result\<lparr>TotalSize := add_sizes tags (TotalSize result)\<rparr>;
                filtered = post_filter c tags;
                result = result\<lparr>FilteredTags := int (length filtered)\<rparr>
            in if length filtered = 0 then (result, w)
               else
                 (case classify lib now c filtered of (tagsToKeep, tagsToDelete) \<Rightarrow>
                    (let result = result\<lparr>KeptTags := int (length tagsToKeep)\<rparr>;
                         result = result\<lparr>ReclaimedSize := add_sizes tagsToDelete (ReclaimedSize result)\<rparr>
                     in if length tagsToDelete = 0 then (result, w)
                        else if dryRun c then (dryRun_loop tagsToDelete result, w)
                        else delete_loop e (client c) repo tagsToDelete result w))))"

definition Clean :: "stdlib \<Rightarrow> env \<Rightarrow> time \<Rightarrow> Cleaner \<Rightarrow> string \<Rightarrow> world \<Rightarrow> ((error + CleanResult) \<times> world) option" where
  "Clean lib e now c repo w =
     (case ListTags e (client c) repo w of
        None \<Rightarrow> None
      | Some (Inl err, w1) \<Rightarrow> Some (Inl (Errorf ''failed to list tags'' err), w1)
      | Some (Inr tags, w1) \<Rightarrow>
          (case Clean_fetched lib e now c repo tags w1 of (result, w2) \<Rightarrow> Some (Inr result, w2)))"

text \<open>
  The keep-list and the delete-list of a run on the fetched tags: empty where \<^verbatim>\<open>Clean\<close>
  returns before step 4, the two lists of step 4 otherwise.
\<close>

definition decide :: "stdlib \<Rightarrow> time \<Rightarrow> Cleaner \<Rightarrow> Tag list \<Rightarrow> Tag list \<times> Tag list" where
  "decide lib now c tags =
     (if length tags = 0 then ([], [])
      else if length (post_filter c tags) = 0 then ([], [])
      else classify lib now c (post_filter c tags))"

section \<open>Vocabulary of the properties\<close>

text \<open>
  The \<open>k\<close>-th request of a run is answered with status 429; the events of the retries
  numbered \<open>i\<close> up to \<open>n - 1\<close>; a first request that is let through by the limiter and
  answered by \<open>resp\<close>, and the world after that single exchange.
\<close>

definition throttled :: "env \<Rightarrow> nat \<Rightarrow> Request \<Rightarrow> bool" where
  "throttled e k req = (case httpClient_Do e k req of Inl err \<Rightarrow> False | Inr r \<Rightarrow> StatusCode r = 429)"

definition backoff_events :: "Request \<Rightarrow> nat \<Rightarrow> nat \<Rightarrow> event list" where
  "backoff_events req i n = concat (map (\<lambda>j. [EvSleep (2 ^ j * Second), EvDo req]) [i..<n])"

definition answered :: "env \<Rightarrow> Client \<Rightarrow> world \<Rightarrow> Request \<Rightarrow> Response \<Rightarrow> bool" where
  "answered e c w req resp =
     (limiter_Wait e (waits w) = None \<and> httpClient_Do e (dos w) (authorize c req) = Inr resp)"

definition once :: "Client \<Rightarrow> Request \<Rightarrow> world \<Rightarrow> world" where
  "once c req w = w\<lparr>waits := waits w + 1, dos := dos w + 1,
                       trace := trace w @ [EvWait, EvDo (authorize c req)]\<rparr>"

text \<open>The error kind of a status, as the three calls with a resource URL map it.\<close>

definition status_error :: "int \<Rightarrow> string \<Rightarrow> string \<Rightarrow> error" where
  "status_error status endpoint body =
     (if status = 404 then ErrNotFound
      else if status = 401 then ErrUnauthorized
      else APIError status body endpoint)"

text \<open>
  The server returns the pages \<open>ps\<close>, one for each fetch from page number \<open>page\<close> on;
  the result is the world after the last of them.
\<close>

fun fetches :: "env \<Rightarrow> Client \<Rightarrow> string \<Rightarrow> int \<Rightarrow> world \<Rightarrow> TagsResponse list \<Rightarrow> world option" where
  "fetches e c repo page w [] = Some w"
| "fetches e c repo page w (p # ps) =
     (case ListTags_page e c repo page w of
        (Inl err, w1) \<Rightarrow> None
      | (Inr tagsResp, w1) \<Rightarrow> if tagsResp = p then fetches e c repo (page + 1) w1 ps else None)"

definition has_next :: "TagsResponse \<Rightarrow> bool" where
  "has_next p = (\<not> (Next p = None \<or> Next p = Some ''''))"

fun is_delete_call :: "event \<Rightarrow> bool" where
  "is_delete_call (EvDo req) = (Method req = ''DELETE'')"
| "is_delete_call ev = False"

definition delete_calls :: "event list \<Rightarrow> event list" where
  "delete_calls t = filter is_delete_call t"

section \<open>Sample inputs\<close>

text \<open>
  Concrete libraries, servers and tags, at which the closed instances of the theorems are
  evaluated. The sample \<^verbatim>\<open>sort.Slice\<close> is an insertion sort; the sample server answers the
  \<open>k\<close>-th request with the \<open>k\<close>-th response of a script and refuses the connection
  after the script's end.
\<close>

fun insert_by :: "(Tag \<Rightarrow> Tag \<Rightarrow> bool) \<Rightarrow> Tag \<Rightarrow> Tag list \<Rightarrow> Tag list" where
  "insert_by lt x [] = [x]"
| "insert_by lt x (y # ys) = (if lt x y then x # y # ys else y # insert_by lt x ys)"

definition insertion_sort :: "(Tag \<Rightarrow> Tag \<Rightarrow> bool) \<Rightarrow> Tag list \<Rightarrow> Tag list" where
  "insertion_sort lt xs = foldr (insert_by lt) xs []"

definition sample_lib :: stdlib where
  "sample_lib = \<lparr>sort_Slice = insertion_sort,
                   semver_IsValid = (\<lambda>v. v = ''v1.0.0'' \<or> v = ''v2.0.0''),
                   semver_Compare = (\<lambda>a b. if a = b then 0 else if a < b then - 1 else 1)\<rparr>"

definition tag_a :: Tag where
  "tag_a = \<lparr>Name = ''a'', LastUpdated = 100, FullSize = 10, Images = []\<rparr>"

definition tag_b :: Tag where
  "tag_b = \<lparr>Name = ''b'', LastUpdated = 200, FullSize = 20, Images = []\<rparr>"

definition tag_c :: Tag where
  "tag_c = \<lparr>Name = ''c'', LastUpdated = 300, FullSize = 30, Images = []\<rparr>"

definition page_1 :: TagsResponse where
  "page_1 = \<lparr>Count = 3, Next = Some ''p2'', Previous = None, Results = [tag_a, tag_b]\<rparr>"

definition page_2 :: TagsResponse where
  "page_2 = \<lparr>Count = 3, Next = None, Previous = Some ''p1'', Results = [tag_c]\<rparr>"

definition scripted :: "Response list \<Rightarrow> env" where
  "scripted rs =
     \<lparr>limiter_Wait = (\<lambda>k. None),
      httpClient_Do = (\<lambda>k req. if k < length rs then Inr (rs ! k) else Inl ''connection refused''),
      http_NewRequest_err = (\<lambda>m url. None),
      json_Marshal = (\<lambda>r. Inr (Username r @ '':'' @ Password r)),
      json_Decode_login = (\<lambda>b. Inr \<lparr>Token = b\<rparr>),
      json_Decode_tags = (\<lambda>b. if b = ''p1'' then Inr page_1 else if b = ''p2'' then Inr page_2
                                 else Inl ''unexpected end of JSON input''),
      json_Decode_repo = (\<lambda>b. Inl ''unexpected end of JSON input'')\<rparr>"

definition ok :: "string \<Rightarrow> Response" where
  "ok b = \<lparr>StatusCode = 200, Body = b\<rparr>"

definition too_many :: Response where
  "too_many = \<lparr>StatusCode = 429, Body = ''''\<rparr>"

definition denied :: Response where
  "denied = \<lparr>StatusCode = 401, Body = ''denied''\<rparr>"

definition world0 :: world where
  "world0 = \<lparr>waits = 0, dos = 0, trace = []\<rparr>"

definition get_request :: Request where
  "get_request = \<lparr>Method = ''GET'', URL = ''https://hub.docker.com/v2/repositories/u/r/'',
                   ReqBody = '''', Header = Map.empty\<rparr>"

definition plain_request :: "string \<Rightarrow> string \<Rightarrow> string \<Rightarrow> Request" where
  "plain_request m url body = \<lparr>Method = m, URL = url, ReqBody = body, Header = Map.empty\<rparr>"

definition sample_cleaner :: "RetentionPolicy option \<Rightarrow> bool \<Rightarrow> Cleaner" where
  "sample_cleaner pol dry =
     \<lparr>client = NewClient,
      filter' = Some (RegexFilter \<lparr>MatchString = (\<lambda>s. s \<noteq> ''b''), ReplaceAllString = (\<lambda>s r. s)\<rparr> False),
      policy = pol, sorter = Some LexicographicalSorter, dryRun = dry\<rparr>"

text \<open>
  A second sample \<^verbatim>\<open>sort.Slice\<close>, in place, by swaps, in the manner of the pattern-defeating
  quicksort of Go's standard library: a range of at most 12 elements is sorted by insertion;
  a longer range is partitioned around the median of the three elements a quarter, a half
  and three quarters into it, and both sides are sorted in turn. When the recursion budget is
  used up the range is sorted by insertion.
\<close>

definition swap :: "int \<Rightarrow> int \<Rightarrow> 'a list \<Rightarrow> 'a list" where
  "swap i j xs =
     (if 0 \<le> i \<and> 0 \<le> j \<and> nat i < length xs \<and> nat j < length xs
      then xs[nat i := xs ! nat j, nat j := xs ! nat i] else xs)"

function insert_down :: "('a \<Rightarrow> 'a \<Rightarrow> bool) \<Rightarrow> int \<Rightarrow> int \<Rightarrow> 'a list \<Rightarrow> 'a list" where
  "insert_down lt a j xs =
     (if j > a \<and> lt (xs ! nat j) (xs ! nat (j - 1))
      then insert_down lt a (j - 1) (swap j (j - 1) xs) else xs)"
  by pat_completeness auto
termination
  by (relation "measure (\<lambda>(lt, a, j, xs). nat (j - a))") auto

function insertion_range :: "('a \<Rightarrow> 'a \<Rightarrow> bool) \<Rightarrow> int \<Rightarrow> int \<Rightarrow> int \<Rightarrow> 'a list \<Rightarrow> 'a list" where
  "insertion_range lt a b i xs =
     (if i < b then insertion_range lt a b (i + 1) (insert_down lt a i xs) else xs)"
  by pat_completeness auto
termination
  by (relation "measure (\<lambda>(lt, a, b, i, xs). nat (b - i))") auto

definition order2 :: "('a \<Rightarrow> 'a \<Rightarrow> bool) \<Rightarrow> 'a list \<Rightarrow> int \<Rightarrow> int \<Rightarrow> int \<times> int" where
  "order2 lt xs a b = (if lt (xs ! nat b) (xs ! nat a) then (b, a) else (a, b))"

definition median :: "('a \<Rightarrow> 'a \<Rightarrow> bool) \<Rightarrow> 'a list \<Rightarrow> int \<Rightarrow> int \<Rightarrow> int \<Rightarrow> int" where
  "median lt xs a b c =
     (case order2 lt xs a b of (a1, b1) \<Rightarrow>
      case order2 lt xs b1 c of (b2, c2) \<Rightarrow>
      case order2 lt xs a1 b2 of (a3, b3) \<Rightarrow> b3)"

definition choose_pivot :: "('a \<Rightarrow> 'a \<Rightarrow> bool) \<Rightarrow> 'a list \<Rightarrow> int \<Rightarrow> int \<Rightarrow> int" where
  "choose_pivot lt xs a b =
     (let l = b - a in median lt xs (a + l div 4 * 1) (a + l div 4 * 2) (a + l div 4 * 3))"

function scan_up :: "('a \<Rightarrow> 'a \<Rightarrow> bool) \<Rightarrow> 'a list \<Rightarrow> int \<Rightarrow> int \<Rightarrow> int \<Rightarrow> int" where
  "scan_up lt xs a i j =
     (if i \<le> j \<and> lt (xs ! nat i) (xs ! nat a) then scan_up lt xs a (i + 1) j else i)"
  by pat_completeness auto
termination
  by (relation "measure (\<lambda>(lt, xs, a, i, j). nat (j + 1 - i))") auto

function scan_down :: "('a \<Rightarrow> 'a \<Rightarrow> bool) \<Rightarrow> 'a list \<Rightarrow> int \<Rightarrow> int \<Rightarrow> int \<Rightarrow> int" where
  "scan_down lt xs a i j =
     (if i \<le> j \<and> \<not> lt (xs ! nat j) (xs ! nat a) then scan_down lt xs a i (j - 1) else j)"
  by pat_completeness auto
termination
  by (relation "measure (\<lambda>(lt, xs, a, i, j). nat (j + 1 - i))") auto

declare insert_down.simps [simp del] insertion_range.simps [simp del]
  scan_up.simps [simp del] scan_down.simps [simp del]

function partition_loop :: "('a \<Rightarrow> 'a \<Rightarrow> bool) \<Rightarrow> int \<Rightarrow> int \<Rightarrow> int \<Rightarrow> 'a list \<Rightarrow> int \<times> 'a list" where
  "partition_loop lt a i j xs =
     (if scan_up lt xs a i j > scan_down lt xs a (scan_up lt xs a i j) j
      then (scan_down lt xs a (scan_up lt xs a i j) j, xs)
      else partition_loop lt a (scan_up lt xs a i j + 1) (scan_down lt xs a (scan_up lt xs a i j) j - 1)
             (swap (scan_up lt xs a i j) (scan_down lt xs a (scan_up lt xs a i j) j) xs))"
  by pat_completeness auto
termination
proof (relation "measure (\<lambda>(lt, a, i, j, xs). nat (j + 1 - i))", goal_cases)
  case 1
  then show ?case by simp
next
  case (2 lt a i j xs)
  have up: "i \<le> scan_up lt xs a i j" for lt :: "'a \<Rightarrow> 'a \<Rightarrow> bool" and xs a i j
  proof (induction lt xs a i j rule: scan_up.induct)
    case (1 lt xs a i j)
    show ?case
    proof (cases "i \<le> j \<and> lt (xs ! nat i) (xs ! nat a)")
      case True
      with 1 have "i + 1 \<le> scan_up lt xs a (i + 1) j" by blast
      with True show ?thesis by (subst scan_up.simps) simp
    next
      case False
      then show ?thesis by (subst scan_up.simps) auto
    qed
  qed
  have down: "scan_down lt xs a i j \<le> j" for lt :: "'a \<Rightarrow> 'a \<Rightarrow> bool" and xs a i j
  proof (induction lt xs a i j rule: scan_down.induct)
    case (1 lt xs a i j)
    show ?case
    proof (cases "i \<le> j \<and> \<not> lt (xs ! nat j) (xs ! nat a)")
      case True
      with 1 have "scan_down lt xs a i (j - 1) \<le> j - 1" by blast
      with True show ?thesis by (subst scan_down.simps) simp
    next
      case False
      then show ?thesis by (subst scan_down.simps) auto
    qed
  qed
  from up[of i lt xs a j] down[of lt xs a "scan_up lt xs a i j" j] 2 show ?case
    by simp
qed

declare partition_loop.simps [simp del]

definition partition_at :: "('a \<Rightarrow> 'a \<Rightarrow> bool) \<Rightarrow> int \<Rightarrow> int \<Rightarrow> int \<Rightarrow> 'a list \<Rightarrow> int \<times> 'a list" where
  "partition_at lt a b pivot xs =
     (let xs1 = swap a pivot xs;
          i = scan_up lt xs1 a (a + 1) (b - 1);
          j = scan_down lt xs1 a i (b - 1)
      in if i > j then (j, swap j a xs1)
         else (case partition_loop lt a (i + 1) (j - 1) (swap i j xs1) of
                 (m, xs2) \<Rightarrow> (m, swap m a xs2)))"

fun quick_sort :: "nat \<Rightarrow> ('a \<Rightarrow> 'a \<Rightarrow> bool) \<Rightarrow> int \<Rightarrow> int \<Rightarrow> 'a list \<Rightarrow> 'a list" where
  "quick_sort 0 lt a b xs = insertion_range lt a b (a + 1) xs"
| "quick_sort (Suc n) lt a b xs =
     (if b - a \<le> 12 then insertion_range lt a b (a + 1) xs
      else (case partition_at lt a b (choose_pivot lt xs a b) xs of
              (mid, xs1) \<Rightarrow> quick_sort n lt (mid + 1) b (quick_sort n lt a mid xs1)))"

definition quick_Slice :: "('a \<Rightarrow> 'a \<Rightarrow> bool) \<Rightarrow> 'a list \<Rightarrow> 'a list" where
  "quick_Slice lt xs = quick_sort (length xs) lt 0 (int (length xs)) xs"

definition quick_lib :: stdlib where
  "quick_lib = sample_lib\<lparr>sort_Slice := quick_Slice\<rparr>"

text \<open>
  A strip pattern that removes a prefix up to the first dash (\<^verbatim>\<open>^[^-]*-\<close>), and thirteen
  releases: twelve builds of version 1.0.0 under the prefixes \<^verbatim>\<open>a-\<close> to \<^verbatim>\<open>l-\<close>, then
  version 2.0.0.
\<close>

definition dash_prefix :: Regexp where
  "dash_prefix =
     \<lparr>MatchString = (\<lambda>s. CHR ''-'' \<in> set s),
      ReplaceAllString = (\<lambda>s r. if CHR ''-'' \<in> set s
                                 then r @ tl (dropWhile (\<lambda>c. c \<noteq> CHR ''-'') s) else s)\<rparr>"

definition release :: "string \<Rightarrow> Tag" where
  "release n = \<lparr>Name = n, LastUpdated = 0, FullSize = 0, Images = []\<rparr>"

definition thirteen :: "Tag list" where
  "thirteen = map release
     [''a-1.0.0'', ''b-1.0.0'', ''c-1.0.0'', ''d-1.0.0'', ''e-1.0.0'', ''f-1.0.0'', ''g-1.0.0'',
      ''h-1.0.0'', ''i-1.0.0'', ''j-1.0.0'', ''k-1.0.0'', ''l-1.0.0'', ''2.0.0'']"

text \<open>The versioned group of the version-aware sorter.\<close>

definition versioned :: "stdlib \<Rightarrow> Regexp option \<Rightarrow> Tag \<Rightarrow> bool" where
  "versioned lib pat t = semver_IsValid lib (normalizeVersion (stripPrefix pat (Name t)))"

section \<open>Verified properties\<close>

declare keepSet_loop.simps [simp del]

lemma keepSet_loop_eq:
  "0 \<le> i \<Longrightarrow> keepSet_loop i cnt xs m k =
     (if k \<in> Name ` set (drop (nat i) (take (nat (min_int cnt (int (length xs)))) xs)) then Some True else m k)"
proof (induction i cnt xs m rule: keepSet_loop.induct)
  case (1 i cnt xs m)
  let ?n = "min_int cnt (int (length xs))"
  show ?case
  proof (cases "i < ?n")
    case False
    then have "drop (nat i) (take (nat ?n) xs) = []" using 1(2) by simp
    with False show ?thesis by (subst keepSet_loop.simps) simp
  next
    case True
    have le: "?n \<le> int (length xs)" by (simp add: min_int_def)
    have len: "nat i < length (take (nat ?n) xs)" using True le 1(2) by simp
    have d: "drop (nat i) (take (nat ?n) xs) = xs ! nat i # drop (nat (i + 1)) (take (nat ?n) xs)"
      using Cons_nth_drop_Suc[OF len] len 1(2) by (simp add: nat_add_distrib)
    have ih: "keepSet_loop (i + 1) cnt xs (m(Name (xs ! nat i) \<mapsto> True)) k =
      (if k \<in> Name ` set (drop (nat (i + 1)) (take (nat ?n) xs)) then Some True else (m(Name (xs ! nat i) \<mapsto> True)) k)"
    proof -
      have "0 \<le> i + 1" using 1(2) by simp
      from 1(1)[OF True this] show ?thesis .
    qed
    have "keepSet_loop i cnt xs m k = keepSet_loop (i + 1) cnt xs (m(Name (xs ! nat i) \<mapsto> True)) k"
      using True by (subst keepSet_loop.simps) simp
    also note ih
    finally show ?thesis
      by (simp only: d) auto
  qed
qed

text \<open>
  C2. For every count \<open>N\<close> and every list given at construction, the count policy keeps
  a tag exactly when the tag's name is among the first \<open>min N M\<close> names of that list,
  \<open>M\<close> being its length. The policy holds nothing but the set built at construction, so
  no later list enters the decision. A count below zero keeps nothing.
\<close>

theorem count_policy_keeps_first:
  "ShouldKeep now (NewCountRetentionPolicy N sortedTags) tag \<longleftrightarrow>
     Name tag \<in> set (take (nat (min N (int (length sortedTags)))) (map Name sortedTags))"
  by (simp add: NewCountRetentionPolicy_def map_index_def keepSet_loop_eq min_int_def min_def take_map)

lemma or_loop_ex: "or_loop now ps tag \<longleftrightarrow> (\<exists>p\<in>set ps. ShouldKeep now p tag)"
  by (induction ps) auto

lemma and_loop_all: "and_loop now ps tag \<longleftrightarrow> (\<forall>p\<in>set ps. ShouldKeep now p tag)"
  by (induction ps) auto

text \<open>
  C5. In OR mode a composite policy over a non-empty list keeps a tag exactly when some
  sub-policy keeps it; in AND mode it keeps a tag exactly when every sub-policy keeps it;
  over the empty list it keeps every tag, whatever the mode value.
\<close>

theorem composite_truth_table:
  "(ps \<noteq> [] \<longrightarrow> (ShouldKeep now (CompositePolicy ps PolicyModeOR) tag \<longleftrightarrow> (\<exists>p\<in>set ps. ShouldKeep now p tag)))
   \<and> (ShouldKeep now (CompositePolicy ps PolicyModeAND) tag \<longleftrightarrow> (\<forall>p\<in>set ps. ShouldKeep now p tag))
   \<and> ShouldKeep now (CompositePolicy [] mode) tag"
  by (simp add: or_loop_ex and_loop_all PolicyModeOR_def PolicyModeAND_def)

theorem composite_truth_table_witness:
  "[DaysRetentionPolicy 0, CountRetentionPolicy [''a'' \<mapsto> True]] \<noteq> []
   \<and> ShouldKeep 0 (CompositePolicy [DaysRetentionPolicy 0, CountRetentionPolicy [''a'' \<mapsto> True]] PolicyModeOR)
        \<lparr>Name = ''a'', LastUpdated = 0, FullSize = 0, Images = []\<rparr>
   \<and> \<not> ShouldKeep 0 (CompositePolicy [DaysRetentionPolicy 0, CountRetentionPolicy [''a'' \<mapsto> True]] PolicyModeAND)
        \<lparr>Name = ''a'', LastUpdated = 0, FullSize = 0, Images = []\<rparr>
   \<and> ShouldKeep 0 (CompositePolicy [] 7) \<lparr>Name = ''a'', LastUpdated = 0, FullSize = 0, Images = []\<rparr>"
  using composite_truth_table [of "[DaysRetentionPolicy 0, CountRetentionPolicy [''a'' \<mapsto> True]]" 0
      "\<lparr>Name = ''a'', LastUpdated = 0, FullSize = 0, Images = []\<rparr>" 7]
  by (simp add: map_index_def AddDate_days_def)

declare retry_loop.simps [simp del]

lemma backoff_events_Nil: "n \<le> i \<Longrightarrow> backoff_events req i n = []"
  by (simp add: backoff_events_def)

lemma backoff_events_step:
  "i < n \<Longrightarrow> backoff_events req i n = EvSleep (2 ^ i * Second) # EvDo req # backoff_events req (Suc i) n"
  by (simp add: backoff_events_def upt_conv_Cons)

lemma retry_loop_step:
  assumes "i < 5" and "httpClient_Do e (dos w) req = Inr r" and "StatusCode r = 429"
  shows "retry_loop e req i w =
     retry_loop e req (i + 1) (w\<lparr>dos := dos w + 1, trace := trace w @ [EvSleep (2 ^ i * Second), EvDo req]\<rparr>)"
  using assms
  by (subst retry_loop.simps) (simp add: Let_def call_Do_def call_Sleep_def push_bit_eq_mult)

lemma retry_loop_return:
  assumes "i < 5" and "httpClient_Do e (dos w) req = Inr r" and "StatusCode r \<noteq> 429"
  shows "retry_loop e req i w =
     (Inr r, w\<lparr>dos := dos w + 1, trace := trace w @ [EvSleep (2 ^ i * Second), EvDo req]\<rparr>)"
  using assms
  by (subst retry_loop.simps) (simp add: Let_def call_Do_def call_Sleep_def push_bit_eq_mult)

lemma throttledE:
  assumes "throttled e k req"
  obtains r where "httpClient_Do e k req = Inr r" and "StatusCode r = 429"
  using assms by (auto simp: throttled_def split: sum.splits)

lemma retry_loop_exhausted:
  "i + m = 5 \<Longrightarrow> (\<forall>j<m. throttled e (dos w + j) req) \<Longrightarrow>
   retry_loop e req i w =
     (Inl ErrRateLimited, w\<lparr>dos := dos w + m, trace := trace w @ backoff_events req i 5\<rparr>)"
proof (induction m arbitrary: i w)
  case 0
  then show ?case by (subst retry_loop.simps) (simp add: backoff_events_Nil)
next
  case (Suc m)
  from Suc.prems have i: "i < 5" and t0: "throttled e (dos w) req" by auto
  from t0 obtain r where r: "httpClient_Do e (dos w) req = Inr r" "StatusCode r = 429"
    by (rule throttledE)
  let ?w = "w\<lparr>dos := dos w + 1, trace := trace w @ [EvSleep (2 ^ i * Second), EvDo req]\<rparr>"
  have "\<forall>j<m. throttled e (dos ?w + j) req"
    using Suc.prems(2) by (auto dest: spec[of _ "Suc j" for j])
  moreover have "(i + 1) + m = 5" using Suc.prems(1) by simp
  ultimately have "retry_loop e req (i + 1) ?w =
      (Inl ErrRateLimited, ?w\<lparr>dos := dos ?w + m, trace := trace ?w @ backoff_events req (i + 1) 5\<rparr>)"
    by (rule Suc.IH[rotated])
  then show ?case
    using retry_loop_step[OF i r] i by (simp add: backoff_events_step[of i 5])
qed

lemma retry_loop_succeeds:
  "i + m < 5 \<Longrightarrow> (\<forall>j<m. throttled e (dos w + j) req) \<Longrightarrow>
   httpClient_Do e (dos w + m) req = Inr r \<Longrightarrow> StatusCode r \<noteq> 429 \<Longrightarrow>
   retry_loop e req i w =
     (Inr r, w\<lparr>dos := dos w + m + 1, trace := trace w @ backoff_events req i (i + m + 1)\<rparr>)"
proof (induction m arbitrary: i w)
  case 0
  then show ?case
    using retry_loop_return[of i e w req r]
    by (simp add: backoff_events_step[of i "Suc i"] backoff_events_Nil)
next
  case (Suc m)
  from Suc.prems have i: "i < 5" and t0: "throttled e (dos w) req" by auto
  from t0 obtain r0 where r0: "httpClient_Do e (dos w) req = Inr r0" "StatusCode r0 = 429"
    by (rule throttledE)
  let ?w = "w\<lparr>dos := dos w + 1, trace := trace w @ [EvSleep (2 ^ i * Second), EvDo req]\<rparr>"
  have a: "\<forall>j<m. throttled e (dos ?w + j) req"
    using Suc.prems(2) by (auto dest: spec[of _ "Suc j" for j])
  have b: "(i + 1) + m < 5" using Suc.prems(1) by simp
  have c: "httpClient_Do e (dos ?w + m) req = Inr r" using Suc.prems(3) by simp
  have "retry_loop e req (i + 1) ?w =
      (Inr r, ?w\<lparr>dos := dos ?w + m + 1, trace := trace ?w @ backoff_events req (i + 1) ((i + 1) + m + 1)\<rparr>)"
    by (rule Suc.IH[OF b a c Suc.prems(4)])
  then show ?case
    using retry_loop_step[OF i r0] i by (simp add: backoff_events_step[of i "Suc (Suc (i + m))"])
qed

lemma doRequest_first:
  assumes "limiter_Wait e (waits w) = None" and "httpClient_Do e (dos w) (authorize c req) = Inr r"
  shows "doRequest e c req w =
     (if StatusCode r = 429 then retry_loop e (authorize c req) 0 (once c req w) else (Inr r, once c req w))"
  using assms by (simp add: doRequest_def call_Wait_def call_Do_def once_def Let_def)

text \<open>
  C4. A request that passes the limiter and is answered with status 429 is sent again
  after sleeps of 1, 2, 4, 8 and 16 seconds. When the five retries are all answered with
  429, \<^verbatim>\<open>doRequest\<close> fails with \<open>ErrRateLimited\<close> after six requests and no response is
  returned. When retry number \<open>n < 5\<close> is the first with another status, its response is
  the result, after the sleeps of \<open>1, \<dots>, 2 ^ n\<close> seconds.
\<close>

theorem doRequest_backoff:
  assumes "limiter_Wait e (waits w) = None"
      and "throttled e (dos w) (authorize c req)"
  shows "((\<forall>k<5. throttled e (dos w + 1 + k) (authorize c req)) \<longrightarrow>
           doRequest e c req w =
             (Inl ErrRateLimited,
              w\<lparr>waits := waits w + 1, dos := dos w + 6,
                trace := trace w @
                  [EvWait, EvDo (authorize c req),
                   EvSleep (1 * Second), EvDo (authorize c req),
                   EvSleep (2 * Second), EvDo (authorize c req),
                   EvSleep (4 * Second), EvDo (authorize c req),
                   EvSleep (8 * Second), EvDo (authorize c req),
                   EvSleep (16 * Second), EvDo (authorize c req)]\<rparr>))
       \<and> (\<forall>n<5. \<forall>r. (\<forall>k<n. throttled e (dos w + 1 + k) (authorize c req))
              \<and> httpClient_Do e (dos w + 1 + n) (authorize c req) = Inr r \<and> StatusCode r \<noteq> 429 \<longrightarrow>
           doRequest e c req w =
             (Inr r,
              w\<lparr>waits := waits w + 1, dos := dos w + 2 + n,
                trace := trace w @ [EvWait, EvDo (authorize c req)]
                           @ backoff_events (authorize c req) 0 (n + 1)\<rparr>))"
proof -
  let ?q = "authorize c req"
  from assms(2) obtain r0 where r0: "httpClient_Do e (dos w) ?q = Inr r0" "StatusCode r0 = 429"
    by (rule throttledE)
  have d: "doRequest e c req w = retry_loop e ?q 0 (once c req w)"
    using doRequest_first[OF assms(1) r0(1)] r0(2) by simp
  have ev: "backoff_events ?q 0 5 =
      [EvSleep (1 * Second), EvDo ?q, EvSleep (2 * Second), EvDo ?q, EvSleep (4 * Second), EvDo ?q,
       EvSleep (8 * Second), EvDo ?q, EvSleep (16 * Second), EvDo ?q]"
    by (simp add: backoff_events_def upt_conv_Cons)
  have A: "doRequest e c req w =
             (Inl ErrRateLimited,
              w\<lparr>waits := waits w + 1, dos := dos w + 6,
                trace := trace w @ [EvWait, EvDo ?q] @ backoff_events ?q 0 5\<rparr>)"
    if t: "\<forall>k<5. throttled e (dos w + 1 + k) ?q"
  proof -
    have "\<forall>j<5. throttled e (dos (once c req w) + j) ?q" using t by (simp add: once_def)
    from retry_loop_exhausted[of 0 5, OF _ this] show ?thesis
      by (simp add: d once_def)
  qed
  have B: "doRequest e c req w =
             (Inr r, w\<lparr>waits := waits w + 1, dos := dos w + 2 + n,
                trace := trace w @ [EvWait, EvDo ?q] @ backoff_events ?q 0 (n + 1)\<rparr>)"
    if n: "n < 5" and t: "\<forall>k<n. throttled e (dos w + 1 + k) ?q"
      and r: "httpClient_Do e (dos w + 1 + n) ?q = Inr r" "StatusCode r \<noteq> 429" for n r
  proof -
    have t': "\<forall>j<n. throttled e (dos (once c req w) + j) ?q" using t by (simp add: once_def)
    have r': "httpClient_Do e (dos (once c req w) + n) ?q = Inr r" using r(1) by (simp add: once_def)
    from retry_loop_succeeds[of 0 n, OF _ t' r' r(2)] n show ?thesis
      by (simp add: d once_def)
  qed
  from A B show ?thesis by (simp only: ev append.simps) blast
qed

lemma authorize_NewClient: "authorize NewClient req = req"
  by (simp add: authorize_def NewClient_def)

lemma throttled_scripted:
  "throttled (scripted rs) k req \<longleftrightarrow> k < length rs \<and> StatusCode (rs ! k) = 429"
  by (simp add: throttled_def scripted_def)

theorem doRequest_backoff_witness:
  "limiter_Wait (scripted (replicate 6 too_many)) (waits world0) = None
   \<and> throttled (scripted (replicate 6 too_many)) (dos world0) (authorize NewClient get_request)
   \<and> throttled (scripted (replicate 6 too_many)) 5 (authorize NewClient get_request)
   \<and> doRequest (scripted (replicate 6 too_many)) NewClient get_request world0 =
        (Inl ErrRateLimited,
         \<lparr>waits = 1, dos = 6,
          trace = [EvWait, EvDo get_request,
                   EvSleep 1000000000, EvDo get_request, EvSleep 2000000000, EvDo get_request,
                   EvSleep 4000000000, EvDo get_request, EvSleep 8000000000, EvDo get_request,
                   EvSleep 16000000000, EvDo get_request]\<rparr>)
   \<and> throttled (scripted [too_many, too_many, ok ''x'']) (dos world0) (authorize NewClient get_request)
   \<and> throttled (scripted [too_many, too_many, ok ''x'']) 1 (authorize NewClient get_request)
   \<and> httpClient_Do (scripted [too_many, too_many, ok ''x'']) 2 (authorize NewClient get_request) = Inr (ok ''x'')
   \<and> doRequest (scripted [too_many, too_many, ok ''x'']) NewClient get_request world0 =
        (Inr (ok ''x''),
         \<lparr>waits = 1, dos = 3,
          trace = [EvWait, EvDo get_request,
                   EvSleep 1000000000, EvDo get_request, EvSleep 2000000000, EvDo get_request]\<rparr>)"
proof -
  let ?e = "scripted (replicate 6 too_many)" and ?f = "scripted [too_many, too_many, ok ''x'']"
  let ?q = "authorize NewClient get_request"
  have e1: "limiter_Wait ?e (waits world0) = None" by (simp add: scripted_def)
  have e2: "throttled ?e (dos world0) ?q"
    by (simp add: throttled_scripted world0_def too_many_def)
  have e3: "\<forall>k<5. throttled ?e (dos world0 + 1 + k) ?q"
    by (simp add: throttled_scripted world0_def too_many_def)
  have e4: "throttled ?e 5 ?q" by (simp add: throttled_scripted too_many_def)
  have f1: "limiter_Wait ?f (waits world0) = None" by (simp add: scripted_def)
  have f2: "throttled ?f (dos world0) ?q"
    by (simp add: throttled_scripted world0_def too_many_def)
  have f3: "throttled ?f 1 ?q" by (simp add: throttled_scripted too_many_def)
  have f4: "httpClient_Do ?f 2 ?q = Inr (ok ''x'')" by (simp add: scripted_def)
  have f5: "\<forall>k<1. throttled ?f (dos world0 + 1 + k) ?q" using f3 by (simp add: world0_def)
  have f6: "httpClient_Do ?f (dos world0 + 1 + 1) ?q = Inr (ok ''x'')" by (simp add: scripted_def world0_def)
  have f7: "StatusCode (ok ''x'') \<noteq> 429" by (simp add: ok_def)
  have E: "doRequest ?e NewClient get_request world0 =
        (Inl ErrRateLimited,
         \<lparr>waits = 1, dos = 6,
          trace = [EvWait, EvDo get_request,
                   EvSleep 1000000000, EvDo get_request, EvSleep 2000000000, EvDo get_request,
                   EvSleep 4000000000, EvDo get_request, EvSleep 8000000000, EvDo get_request,
                   EvSleep 16000000000, EvDo get_request]\<rparr>)"
    using doRequest_backoff[OF e1 e2] e3
    by (simp add: authorize_NewClient world0_def Second_def)
  have "doRequest ?f NewClient get_request world0 =
          (Inr (ok ''x''),
           world0\<lparr>waits := waits world0 + 1, dos := dos world0 + 2 + 1,
             trace := trace world0 @ [EvWait, EvDo ?q] @ backoff_events ?q 0 (1 + 1)\<rparr>)"
  proof -
    have "(1::nat) < 5" by simp
    with doRequest_backoff[OF f1 f2] f5 f6 f7 show ?thesis by blast
  qed
  then have F: "doRequest ?f NewClient get_request world0 =
        (Inr (ok ''x''),
         \<lparr>waits = 1, dos = 3,
          trace = [EvWait, EvDo get_request,
                   EvSleep 1000000000, EvDo get_request, EvSleep 2000000000, EvDo get_request]\<rparr>)"
    by (simp add: authorize_NewClient world0_def Second_def backoff_events_def upt_conv_Cons)
  from e1 e2 e4 E f2 f3 f4 F show ?thesis by blast
qed

declare ListTags_loop.simps [simp del]

lemma ListTags_loop_stop:
  assumes "ListTags_page e c repo page w = (Inr p, w1)" and "\<not> has_next p"
  shows "ListTags_loop e c repo acc page w = Some (Inr (acc @ Results p), w1)"
  using assms by (subst ListTags_loop.simps) (simp add: has_next_def Let_def)

lemma ListTags_loop_next:
  assumes "ListTags_page e c repo page w = (Inr p, w1)" and "has_next p"
  shows "ListTags_loop e c repo acc page w = ListTags_loop e c repo (acc @ Results p) (page + 1) w1"
  using assms by (subst ListTags_loop.simps) (auto simp: has_next_def Let_def)

lemma ListTags_loop_error:
  assumes "ListTags_page e c repo page w = (Inl err, w1)"
  shows "ListTags_loop e c repo acc page w = Some (Inl err, w1)"
  using assms by (subst ListTags_loop.simps) simp

lemma fetches_Cons:
  assumes "fetches e c repo page w (p # ps) = Some w'"
  obtains w1 where "ListTags_page e c repo page w = (Inr p, w1)"
    and "fetches e c repo (page + 1) w1 ps = Some w'"
  using assms by (auto split: prod.splits sum.splits if_splits)

lemma ListTags_loop_pages:
  "fetches e c repo page w (ps @ [p]) = Some w' \<Longrightarrow> \<forall>q\<in>set ps. has_next q \<Longrightarrow> \<not> has_next p \<Longrightarrow>
   ListTags_loop e c repo acc page w = Some (Inr (acc @ concat (map Results (ps @ [p]))), w')"
proof (induction ps arbitrary: acc page w)
  case Nil
  from Nil(1) have "fetches e c repo page w (p # []) = Some w'" by (simp only: append_Nil)
  then obtain w1 where "ListTags_page e c repo page w = (Inr p, w1)"
    and "fetches e c repo (page + 1) w1 [] = Some w'"
    by (rule fetches_Cons)
  with Nil(3) show ?case by (simp add: ListTags_loop_stop)
next
  case (Cons q ps)
  from Cons.prems(1) have "fetches e c repo page w (q # (ps @ [p])) = Some w'"
    by (simp only: append_Cons)
  then obtain w1 where f: "ListTags_page e c repo page w = (Inr q, w1)"
    and r: "fetches e c repo (page + 1) w1 (ps @ [p]) = Some w'"
    by (rule fetches_Cons)
  have "has_next q" using Cons.prems(2) by simp
  from ListTags_loop_next[OF f this]
  have "ListTags_loop e c repo acc page w = ListTags_loop e c repo (acc @ Results q) (page + 1) w1" .
  also have "\<dots> = Some (Inr ((acc @ Results q) @ concat (map Results (ps @ [p]))), w')"
    using Cons.prems(2,3) by (intro Cons.IH[OF r]) simp_all
  finally show ?case by simp
qed

lemma ListTags_loop_abort:
  "fetches e c repo page w ps = Some w1 \<Longrightarrow> \<forall>q\<in>set ps. has_next q \<Longrightarrow>
   ListTags_page e c repo (page + int (length ps)) w1 = (Inl err, w2) \<Longrightarrow>
   ListTags_loop e c repo acc page w = Some (Inl err, w2)"
proof (induction ps arbitrary: acc page w)
  case Nil
  then show ?case by (simp add: ListTags_loop_error)
next
  case (Cons q ps)
  from Cons.prems(1) obtain w0 where f: "ListTags_page e c repo page w = (Inr q, w0)"
    and r: "fetches e c repo (page + 1) w0 ps = Some w1"
    by (rule fetches_Cons)
  have "has_next q" using Cons.prems(2) by simp
  from ListTags_loop_next[OF f this]
  have "ListTags_loop e c repo acc page w = ListTags_loop e c repo (acc @ Results q) (page + 1) w0" .
  also have "\<dots> = Some (Inl err, w2)"
  proof (rule Cons.IH[OF r])
    show "\<forall>q\<in>set ps. has_next q" using Cons.prems(2) by simp
    show "ListTags_page e c repo (page + 1 + int (length ps)) w1 = (Inl err, w2)"
      using Cons.prems(3) by (simp add: ac_simps)
  qed
  finally show ?case .
qed

text \<open>
  C6. When the server returns the pages \<open>ps @ [p]\<close>, every page of \<open>ps\<close> naming a next
  page and \<open>p\<close> naming none (absent or empty), \<^verbatim>\<open>ListTags\<close> returns the results of the
  pages concatenated in that order. When the pages \<open>ps\<close> are followed by a page fetch that
  fails with \<open>err\<close>, \<^verbatim>\<open>ListTags\<close> returns \<open>err\<close> itself and no tag list.
\<close>

theorem ListTags_pagination:
  "(fetches e c repo 1 w (ps @ [p]) = Some w' \<and> (\<forall>q\<in>set ps. has_next q) \<and> \<not> has_next p \<longrightarrow>
      ListTags e c repo w = Some (Inr (concat (map Results (ps @ [p]))), w'))
   \<and> (fetches e c repo 1 w ps = Some w1 \<and> (\<forall>q\<in>set ps. has_next q)
        \<and> ListTags_page e c repo (1 + int (length ps)) w1 = (Inl err, w2) \<longrightarrow>
      ListTags e c repo w = Some (Inl err, w2))"
  using ListTags_loop_pages[of e c repo 1 w ps p w' "[]"] ListTags_loop_abort[of e c repo 1 w ps w1 err w2 "[]"]
  by (simp add: ListTags_def)

lemma doRequest_answered:
  assumes "answered e c w req resp" and "StatusCode resp \<noteq> 429"
  shows "doRequest e c req w = (Inr resp, once c req w)"
  using assms doRequest_first[of e w c req resp] by (simp add: answered_def)

text \<open>
  C7, as amended. A first response whose status is neither 429 nor in 200..299 ends the
  call after that one request. In \<^verbatim>\<open>ListTags\<close>, \<^verbatim>\<open>DeleteTag\<close> and
  \<^verbatim>\<open>GetRepository\<close> status 404 gives \<open>ErrNotFound\<close>, status 401 gives
  \<open>ErrUnauthorized\<close>, any other status an \<open>APIError\<close> with the status, the body and the
  URL of the request. In \<^verbatim>\<open>Authenticate\<close> every such status, 401 and 404 among them, gives
  an \<open>APIError\<close> with the status, the body and the endpoint \<^verbatim>\<open>/users/login/\<close>.
\<close>

theorem status_mapping:
  "StatusCode resp \<noteq> 429 \<and> \<not> (200 \<le> StatusCode resp \<and> StatusCode resp \<le> 299) \<longrightarrow>
     (\<forall>req. NewRequest e ''GET'' (tags_url c repo page) '''' = Inr req \<and> answered e c w req resp \<longrightarrow>
        ListTags_page e c repo page w =
          (Inl (status_error (StatusCode resp) (tags_url c repo page) (Body resp)), once c req w))
   \<and> (\<forall>req. NewRequest e ''DELETE'' (baseURL c @ ''/repositories/'' @ repo @ ''/tags/'' @ tag @ ''/'') '''' = Inr req
          \<and> answered e c w req resp \<longrightarrow>
        DeleteTag e c repo tag w =
          (Some (status_error (StatusCode resp)
                   (baseURL c @ ''/repositories/'' @ repo @ ''/tags/'' @ tag @ ''/'') (Body resp)),
           once c req w))
   \<and> (\<forall>req. NewRequest e ''GET'' (baseURL c @ ''/repositories/'' @ repo @ ''/'') '''' = Inr req
          \<and> answered e c w req resp \<longrightarrow>
        GetRepository e c repo w =
          (Inl (status_error (StatusCode resp) (baseURL c @ ''/repositories/'' @ repo @ ''/'') (Body resp)),
           once c req w))
   \<and> (\<forall>body req. json_Marshal e \<lparr>Username = uname, Password = password\<rparr> = Inr body
          \<and> NewRequest e ''POST'' (baseURL c @ ''/users/login/'') body = Inr req
          \<and> answered e c w (req\<lparr>Header := (Header req)(''Content-Type'' \<mapsto> ''application/json'')\<rparr>) resp \<longrightarrow>
        Authenticate e c uname password w =
          ((Some (APIError (StatusCode resp) (Body resp) ''/users/login/''), c),
           once c (req\<lparr>Header := (Header req)(''Content-Type'' \<mapsto> ''application/json'')\<rparr>) w))"
proof (intro impI conjI allI)
  assume s: "StatusCode resp \<noteq> 429 \<and> \<not> (200 \<le> StatusCode resp \<and> StatusCode resp \<le> 299)"
  then have n: "StatusCode resp \<noteq> 429" and k: "StatusCode resp \<noteq> 200" "StatusCode resp \<noteq> 204"
    by auto
  { fix req
    assume a: "NewRequest e ''GET'' (tags_url c repo page) '''' = Inr req \<and> answered e c w req resp"
    then have "doRequest e c req w = (Inr resp, once c req w)"
      using n by (simp add: doRequest_answered)
    with a k show "ListTags_page e c repo page w =
          (Inl (status_error (StatusCode resp) (tags_url c repo page) (Body resp)), once c req w)"
      by (simp add: ListTags_page_def status_error_def NewAPIError_def Let_def) }
  { fix req
    assume a: "NewRequest e ''DELETE'' (baseURL c @ ''/repositories/'' @ repo @ ''/tags/'' @ tag @ ''/'') '''' = Inr req
          \<and> answered e c w req resp"
    then have "doRequest e c req w = (Inr resp, once c req w)"
      using n by (simp add: doRequest_answered)
    with a k show "DeleteTag e c repo tag w =
          (Some (status_error (StatusCode resp)
                   (baseURL c @ ''/repositories/'' @ repo @ ''/tags/'' @ tag @ ''/'') (Body resp)),
           once c req w)"
      by (simp add: DeleteTag_def status_error_def NewAPIError_def Let_def) }
  { fix req
    assume a: "NewRequest e ''GET'' (baseURL c @ ''/repositories/'' @ repo @ ''/'') '''' = Inr req
          \<and> answered e c w req resp"
    then have "doRequest e c req w = (Inr resp, once c req w)"
      using n by (simp add: doRequest_answered)
    with a k show "GetRepository e c repo w =
          (Inl (status_error (StatusCode resp) (baseURL c @ ''/repositories/'' @ repo @ ''/'') (Body resp)),
           once c req w)"
      by (simp add: GetRepository_def status_error_def NewAPIError_def Let_def) }
  { fix body and req :: Request
    let ?req = "req\<lparr>Header := (Header req)(''Content-Type'' \<mapsto> ''application/json'')\<rparr>"
    assume a: "json_Marshal e \<lparr>Username = uname, Password = password\<rparr> = Inr body
          \<and> NewRequest e ''POST'' (baseURL c @ ''/users/login/'') body = Inr req
          \<and> answered e c w ?req resp"
    then have "doRequest e c ?req w = (Inr resp, once c ?req w)"
      using n by (simp add: doRequest_answered)
    with a k show "Authenticate e c uname password w =
          ((Some (APIError (StatusCode resp) (Body resp) ''/users/login/''), c), once c ?req w)"
      by (simp add: Authenticate_def NewAPIError_def Let_def) }
qed

text \<open>
  C9. The limiter of a new client is \<^verbatim>\<open>rate.NewLimiter(rate.Every(time.Second), 5)\<close>: a
  bucket of five tokens refilled at one token per second, not at five per second.
\<close>

theorem NewClient_limiter:
  "limiter NewClient = \<lparr>limiter_limit = PerSecond 1, limiter_burst = 5\<rparr>
   \<and> limiter_limit (limiter NewClient) \<noteq> PerSecond 5"
  by (simp add: NewClient_def rate_NewLimiter_def rate_Every_def Second_def)

lemma NewRequest_scripted: "NewRequest (scripted rs) m url body = Inr (plain_request m url body)"
  by (simp add: NewRequest_def scripted_def plain_request_def)

lemma answered_scripted:
  "answered (scripted rs) NewClient w req resp \<longleftrightarrow> dos w < length rs \<and> rs ! dos w = resp"
  by (auto simp: answered_def scripted_def authorize_NewClient)

lemma ListTags_page_scripted_ok:
  assumes "dos w < length rs" and "rs ! dos w = ok b" and "json_Decode_tags (scripted rs) b = Inr p"
  shows "ListTags_page (scripted rs) NewClient repo page w =
           (Inr p, once NewClient (plain_request ''GET'' (tags_url NewClient repo page) '''') w)"
proof -
  let ?req = "plain_request ''GET'' (tags_url NewClient repo page) ''''"
  have "answered (scripted rs) NewClient w ?req (ok b)"
    using assms by (simp add: answered_scripted)
  then have "doRequest (scripted rs) NewClient ?req w = (Inr (ok b), once NewClient ?req w)"
    by (rule doRequest_answered) (simp add: ok_def)
  then show ?thesis
    using assms(3) by (simp add: ListTags_page_def NewRequest_scripted Let_def ok_def)
qed

lemma json_Marshal_scripted:
  "json_Marshal (scripted rs) r = Inr (Username r @ '':'' @ Password r)"
  by (simp add: scripted_def)

lemma denied_simps: "StatusCode denied = 401" "Body denied = ''denied''"
  by (simp_all add: denied_def)

lemma baseURL_NewClient: "baseURL NewClient = ''https://hub.docker.com/v2''"
  by (simp add: NewClient_def DefaultBaseURL_def)

lemma Header_plain_request: "Header (plain_request m url body) = Map.empty"
  by (simp add: plain_request_def)

theorem status_mapping_witness:
  "StatusCode denied \<noteq> 429 \<and> \<not> (200 \<le> StatusCode denied \<and> StatusCode denied \<le> 299)
   \<and> NewRequest (scripted [denied]) ''GET'' (tags_url NewClient ''u/r'' 1) ''''
        = Inr (plain_request ''GET'' (tags_url NewClient ''u/r'' 1) '''')
   \<and> answered (scripted [denied]) NewClient world0 (plain_request ''GET'' (tags_url NewClient ''u/r'' 1) '''') denied
   \<and> ListTags_page (scripted [denied]) NewClient ''u/r'' 1 world0 =
        (Inl ErrUnauthorized, once NewClient (plain_request ''GET'' (tags_url NewClient ''u/r'' 1) '''') world0)
   \<and> DeleteTag (scripted [denied]) NewClient ''u/r'' ''a'' world0 =
        (Some ErrUnauthorized,
         once NewClient (plain_request ''DELETE'' ''https://hub.docker.com/v2/repositories/u/r/tags/a/'' '''') world0)
   \<and> GetRepository (scripted [denied]) NewClient ''u/r'' world0 =
        (Inl ErrUnauthorized,
         once NewClient (plain_request ''GET'' ''https://hub.docker.com/v2/repositories/u/r/'' '''') world0)
   \<and> Authenticate (scripted [denied]) NewClient ''u'' ''p'' world0 =
        ((Some (APIError 401 ''denied'' ''/users/login/''), NewClient),
         once NewClient
           ((plain_request ''POST'' ''https://hub.docker.com/v2/users/login/'' ''u:p'')
              \<lparr>Header := [''Content-Type'' \<mapsto> ''application/json'']\<rparr>) world0)"
proof -
  let ?e = "scripted [denied]"
  have s: "StatusCode denied \<noteq> 429 \<and> \<not> (200 \<le> StatusCode denied \<and> StatusCode denied \<le> 299)"
    by (simp add: denied_simps)
  have a: "answered ?e NewClient world0 req denied" for req
    by (simp add: answered_scripted world0_def)
  from status_mapping[where resp = denied and e = ?e and c = NewClient and repo = "''u/r''"
      and page = 1 and w = world0 and tag = "''a''" and uname = "''u''" and password = "''p''"] s
  show ?thesis
    by (simp add: NewRequest_scripted a json_Marshal_scripted baseURL_NewClient Header_plain_request
        status_error_def denied_simps)
qed

text \<open>
  C7 as stated fails at \<^verbatim>\<open>Authenticate\<close>: a 401 response to the login request is returned
  as an \<open>APIError\<close> with status 401, not as \<open>ErrUnauthorized\<close>.
\<close>

theorem authenticate_401_is_APIError:
  "httpClient_Do (scripted [denied]) 0 (plain_request ''POST'' ''https://hub.docker.com/v2/users/login/'' ''u:p''
       \<lparr>Header := [''Content-Type'' \<mapsto> ''application/json'']\<rparr>) = Inr denied
   \<and> StatusCode denied = 401
   \<and> fst (fst (Authenticate (scripted [denied]) NewClient ''u'' ''p'' world0)) =
        Some (APIError 401 ''denied'' ''/users/login/'')
   \<and> fst (fst (Authenticate (scripted [denied]) NewClient ''u'' ''p'' world0)) \<noteq> Some ErrUnauthorized"
proof -
  let ?e = "scripted [denied]"
  let ?req = "plain_request ''POST'' ''https://hub.docker.com/v2/users/login/'' ''u:p''
       \<lparr>Header := [''Content-Type'' \<mapsto> ''application/json'']\<rparr>"
  have d: "httpClient_Do ?e 0 ?req = Inr denied" by (simp add: scripted_def)
  have "answered ?e NewClient world0 ?req denied"
    by (simp add: answered_scripted world0_def)
  then have "doRequest ?e NewClient ?req world0 = (Inr denied, once NewClient ?req world0)"
    by (rule doRequest_answered) (simp add: denied_simps)
  then have "Authenticate ?e NewClient ''u'' ''p'' world0 =
      ((Some (APIError 401 ''denied'' ''/users/login/''), NewClient), once NewClient ?req world0)"
    by (simp add: Authenticate_def json_Marshal_scripted baseURL_NewClient Header_plain_request
        NewRequest_scripted Let_def NewAPIError_def denied_simps)
  with d show ?thesis by (simp add: denied_simps)
qed

theorem ListTags_pagination_witness:
  "fetches (scripted [ok ''p1'', ok ''p2'']) NewClient ''u/r'' 1 world0 ([page_1] @ [page_2]) =
     Some (once NewClient (plain_request ''GET'' (tags_url NewClient ''u/r'' 2) '''')
            (once NewClient (plain_request ''GET'' (tags_url NewClient ''u/r'' 1) '''') world0))
   \<and> has_next page_1 \<and> \<not> has_next page_2
   \<and> ListTags (scripted [ok ''p1'', ok ''p2'']) NewClient ''u/r'' world0 =
       Some (Inr [tag_a, tag_b, tag_c],
             once NewClient (plain_request ''GET'' (tags_url NewClient ''u/r'' 2) '''')
               (once NewClient (plain_request ''GET'' (tags_url NewClient ''u/r'' 1) '''') world0))
   \<and> fetches (scripted [ok ''p1'', denied]) NewClient ''u/r'' 1 world0 [page_1] =
       Some (once NewClient (plain_request ''GET'' (tags_url NewClient ''u/r'' 1) '''') world0)
   \<and> ListTags_page (scripted [ok ''p1'', denied]) NewClient ''u/r'' 2
        (once NewClient (plain_request ''GET'' (tags_url NewClient ''u/r'' 1) '''') world0) =
       (Inl ErrUnauthorized,
        once NewClient (plain_request ''GET'' (tags_url NewClient ''u/r'' 2) '''')
          (once NewClient (plain_request ''GET'' (tags_url NewClient ''u/r'' 1) '''') world0))
   \<and> ListTags (scripted [ok ''p1'', denied]) NewClient ''u/r'' world0 =
       Some (Inl ErrUnauthorized,
             once NewClient (plain_request ''GET'' (tags_url NewClient ''u/r'' 2) '''')
               (once NewClient (plain_request ''GET'' (tags_url NewClient ''u/r'' 1) '''') world0))"
proof -
  let ?e = "scripted [ok ''p1'', ok ''p2'']" and ?f = "scripted [ok ''p1'', denied]"
  let ?w1 = "once NewClient (plain_request ''GET'' (tags_url NewClient ''u/r'' 1) '''') world0"
  let ?w2 = "once NewClient (plain_request ''GET'' (tags_url NewClient ''u/r'' 2) '''') ?w1"
  have d1: "json_Decode_tags (scripted rs) ''p1'' = Inr page_1" for rs by (simp add: scripted_def)
  have d2: "json_Decode_tags (scripted rs) ''p2'' = Inr page_2" for rs by (simp add: scripted_def)
  have e1: "ListTags_page ?e NewClient ''u/r'' 1 world0 = (Inr page_1, ?w1)"
    by (rule ListTags_page_scripted_ok[OF _ _ d1]) (simp_all add: world0_def)
  have e2: "ListTags_page ?e NewClient ''u/r'' 2 ?w1 = (Inr page_2, ?w2)"
    by (rule ListTags_page_scripted_ok[OF _ _ d2]) (simp_all add: world0_def once_def)
  have f1: "ListTags_page ?f NewClient ''u/r'' 1 world0 = (Inr page_1, ?w1)"
    by (rule ListTags_page_scripted_ok[OF _ _ d1]) (simp_all add: world0_def)
  have "answered ?f NewClient ?w1 (plain_request ''GET'' (tags_url NewClient ''u/r'' 2) '''') denied"
    by (simp add: answered_scripted once_def world0_def)
  then have "doRequest ?f NewClient (plain_request ''GET'' (tags_url NewClient ''u/r'' 2) '''') ?w1 = (Inr denied, ?w2)"
    by (rule doRequest_answered) (simp add: denied_simps)
  then have f2: "ListTags_page ?f NewClient ''u/r'' 2 ?w1 = (Inl ErrUnauthorized, ?w2)"
    by (simp add: ListTags_page_def NewRequest_scripted Let_def denied_simps)
  have n1: "has_next page_1" by (simp add: has_next_def page_1_def)
  have n2: "\<not> has_next page_2" by (simp add: has_next_def page_2_def)
  have E: "fetches ?e NewClient ''u/r'' 1 world0 ([page_1] @ [page_2]) = Some ?w2"
    by (simp add: e1 e2)
  have F: "fetches ?f NewClient ''u/r'' 1 world0 [page_1] = Some ?w1"
    by (simp add: f1)
  have r: "concat (map Results ([page_1] @ [page_2])) = [tag_a, tag_b, tag_c]"
    by (simp add: page_1_def page_2_def)
  have "ListTags ?e NewClient ''u/r'' world0 = Some (Inr (concat (map Results ([page_1] @ [page_2]))), ?w2)"
    using ListTags_pagination[where e = ?e and c = NewClient and repo = "''u/r''" and w = world0
        and ps = "[page_1]" and p = page_2 and w' = ?w2] E n1 n2 by simp
  then have L1: "ListTags ?e NewClient ''u/r'' world0 = Some (Inr [tag_a, tag_b, tag_c], ?w2)"
    by (simp only: r)
  have L2: "ListTags ?f NewClient ''u/r'' world0 = Some (Inl ErrUnauthorized, ?w2)"
    using ListTags_pagination[where e = ?f and c = NewClient and repo = "''u/r''" and w = world0
        and ps = "[page_1]" and ?w1.0 = ?w1 and err = ErrUnauthorized and ?w2.0 = ?w2] F n1 f2
    by simp
  from E n1 n2 L1 F f2 L2 show ?thesis by blast
qed

lemma delete_calls_append: "delete_calls (t @ u) = delete_calls t @ delete_calls u"
  by (simp add: delete_calls_def)

lemma retry_loop_deletes:
  "Method req \<noteq> ''DELETE'' \<Longrightarrow>
   delete_calls (trace (snd (retry_loop e req i w))) = delete_calls (trace w)"
proof (induction e req i w rule: retry_loop.induct)
  case (1 e req i w)
  show ?case
  proof (cases "i < 5")
    case False
    then show ?thesis by (subst retry_loop.simps) simp
  next
    case True
    let ?w1 = "call_Sleep (push_bit i 1 * Second) w"
    obtain out w2 where cd: "call_Do e req ?w1 = (out, w2)" by (cases "call_Do e req ?w1")
    have t2: "delete_calls (trace w2) = delete_calls (trace w)"
      using cd 1(2) by (auto simp: call_Do_def call_Sleep_def delete_calls_def)
    show ?thesis
    proof (cases out)
      case (Inl err)
      then show ?thesis using True cd t2 by (subst retry_loop.simps) (simp add: Let_def)
    next
      case (Inr resp)
      show ?thesis
      proof (cases "StatusCode resp \<noteq> 429")
        case True
        with Inr \<open>i < 5\<close> cd t2 show ?thesis by (subst retry_loop.simps) (simp add: Let_def)
      next
        case False
        have "delete_calls (trace (snd (retry_loop e req (i + 1) w2))) = delete_calls (trace w2)"
          using 1(1)[OF \<open>i < 5\<close> refl refl cd[symmetric] Inr False 1(2)] by simp
        moreover have "retry_loop e req i w = retry_loop e req (i + 1) w2"
          using False Inr \<open>i < 5\<close> cd by (subst retry_loop.simps) (simp add: Let_def)
        ultimately show ?thesis using t2 by simp
      qed
    qed
  qed
qed

lemma doRequest_deletes:
  assumes "Method req \<noteq> ''DELETE''"
  shows "delete_calls (trace (snd (doRequest e c req w))) = delete_calls (trace w)"
proof -
  have m: "Method (authorize c req) \<noteq> ''DELETE''" using assms by (simp add: authorize_def)
  show ?thesis
    using m retry_loop_deletes[OF m]
    by (auto simp: doRequest_def call_Wait_def call_Do_def Let_def delete_calls_def
        split: option.splits sum.splits)
qed

lemma ListTags_page_deletes:
  "delete_calls (trace (snd (ListTags_page e c repo page w))) = delete_calls (trace w)"
proof (cases "NewRequest e ''GET'' (tags_url c repo page) ''''")
  case (Inl err)
  then show ?thesis by (simp add: ListTags_page_def Let_def)
next
  case (Inr req)
  then have "Method req \<noteq> ''DELETE''" by (auto simp: NewRequest_def split: option.splits)
  from doRequest_deletes[OF this, of e c w] Inr show ?thesis
    by (auto simp: ListTags_page_def Let_def split: prod.splits sum.splits)
qed

lemma ListTags_loop_deletes:
  assumes "ListTags_loop e c repo acc page w = Some y"
  shows "delete_calls (trace (snd y)) = delete_calls (trace w)"
proof (rule ListTags_loop.raw_induct[where P = "\<lambda>e c repo acc page w y.
    delete_calls (trace (snd y)) = delete_calls (trace w)", OF _ assms], goal_cases)
  case (1 loop e c repo acc page w y)
  obtain out w1 where p: "ListTags_page e c repo page w = (out, w1)"
    by (cases "ListTags_page e c repo page w")
  have t: "delete_calls (trace w1) = delete_calls (trace w)"
    using ListTags_page_deletes[of e c repo page w] p by simp
  show ?case
  proof (cases out)
    case (Inl err)
    with 1(2) p t show ?thesis by auto
  next
    case (Inr tr)
    show ?thesis
    proof (cases "Next tr = None \<or> Next tr = Some ''''")
      case True
      with 1(2) p t Inr show ?thesis by (auto simp: Let_def)
    next
      case False
      with 1(2) p Inr have "loop e c repo (acc @ Results tr) (page + 1) w1 = Some y"
        by (auto simp: Let_def)
      from 1(1)[OF this] t show ?thesis by simp
    qed
  qed
qed

lemma FilterTags_loop_eq:
  "FilterTags_loop f tags acc = acc @ filter (\<lambda>t. Matches f (Name t)) tags"
  by (induction tags arbitrary: acc) simp_all

lemma classify_loop_eq:
  "classify_loop now pol tags k d =
     (k @ filter (\<lambda>t. case pol of None \<Rightarrow> False | Some p \<Rightarrow> ShouldKeep now p t) tags,
      d @ filter (\<lambda>t. \<not> (case pol of None \<Rightarrow> False | Some p \<Rightarrow> ShouldKeep now p t)) tags)"
  by (induction tags arbitrary: k d) simp_all

lemma semver_split_eq:
  "semver_split lib pat tags sv nsv =
     (sv @ filter (\<lambda>t. semver_IsValid lib (normalizeVersion (stripPrefix pat (Name t)))) tags,
      nsv @ filter (\<lambda>t. \<not> semver_IsValid lib (normalizeVersion (stripPrefix pat (Name t)))) tags)"
  by (induction tags arbitrary: sv nsv) (simp_all add: Let_def)

lemma Sort_mset:
  assumes "\<forall>lt xs. mset (sort_Slice lib lt xs) = mset xs"
  shows "mset (Sort lib s tags) = mset tags"
  using assms
  by (cases s) (simp_all add: Sort_def LexicographicalSorter_Sort_def SemverSorter_Sort_def semver_split_eq)

lemma add_sizes_eq: "add_sizes tags acc = acc + sum_list (map FullSize tags)"
  by (induction tags arbitrary: acc) (simp_all add: add.assoc)

lemma dryRun_loop_eq:
  "dryRun_loop tags r = r\<lparr>DeletedTags := DeletedTags r @ map Name tags\<rparr>"
  by (induction tags arbitrary: r) simp_all

lemma classify_mset:
  assumes "\<forall>lt xs. mset (sort_Slice lib lt xs) = mset xs"
  shows "mset (fst (classify lib now c xs)) + mset (snd (classify lib now c xs)) = mset xs"
proof -
  have "mset (case sorter c of Some s \<Rightarrow> Sort lib s xs | None \<Rightarrow> xs) = mset xs"
    using Sort_mset[OF assms] by (cases "sorter c") simp_all
  then show ?thesis
    by (simp add: classify_def classify_loop_eq Let_def)
qed

lemma post_filter_Nil: "post_filter c [] = []"
  by (simp add: post_filter_def FilterTags_def split: option.splits)

lemma classify_disjoint:
  "set (fst (classify lib now c xs)) \<inter> set (snd (classify lib now c xs)) = {}"
  by (auto simp: classify_def classify_loop_eq Let_def)

text \<open>
  C1. Whatever the fetched tags, the filter, the sorter and the policy, the keep-list and
  the delete-list of a run divide the tags that passed the filter: as multisets the two
  lists add up to the filtered list (no tag is lost or doubled), their union is the
  filtered set, and no tag is in both. The sorters use \<^verbatim>\<open>sort.Slice\<close>, which is taken to
  return a permutation of its input.
\<close>

theorem classification_partitions:
  assumes "\<forall>lt xs. mset (sort_Slice lib lt xs) = mset xs"
  shows "mset (fst (decide lib now c tags)) + mset (snd (decide lib now c tags)) = mset (post_filter c tags)
       \<and> set (fst (decide lib now c tags)) \<union> set (snd (decide lib now c tags)) = set (post_filter c tags)
       \<and> set (fst (decide lib now c tags)) \<inter> set (snd (decide lib now c tags)) = {}"
proof -
  let ?k = "fst (decide lib now c tags)" and ?d = "snd (decide lib now c tags)"
  have m: "mset ?k + mset ?d = mset (post_filter c tags)"
    using classify_mset[OF assms] by (simp add: decide_def post_filter_Nil)
  have "set_mset (mset ?k + mset ?d) = set_mset (mset (post_filter c tags))"
    by (simp only: m)
  then have u: "set ?k \<union> set ?d = set (post_filter c tags)" by simp
  have i: "set ?k \<inter> set ?d = {}"
    using classify_disjoint by (simp add: decide_def)
  from m u i show ?thesis by blast
qed

lemma insert_by_mset: "mset (insert_by lt x xs) = add_mset x (mset xs)"
  by (induction xs) simp_all

lemma insertion_sort_mset: "mset (insertion_sort lt xs) = mset xs"
  by (induction xs) (simp_all add: insertion_sort_def insert_by_mset)

lemma sample_lib_perm: "\<forall>lt xs. mset (sort_Slice sample_lib lt xs) = mset xs"
  by (simp add: sample_lib_def insertion_sort_mset)


lemma decide_Nil: "decide lib now c [] = ([], [])"
  by (simp add: decide_def)

text \<open>
  \<^verbatim>\<open>Clean\<close> after the fetch, read off the two lists of \<open>decide\<close>: the counters and sizes
  of the result, and the three ways the run ends.
\<close>

lemma Clean_fetched_decide:
  "Clean_fetched lib e now c repo tags w =
     (let tagsToKeep = fst (decide lib now c tags);
          tagsToDelete = snd (decide lib now c tags);
          result = \<lparr>TotalTags = int (length tags),
                    FilteredTags = int (length (post_filter c tags)),
                    KeptTags = int (length tagsToKeep),
                    DeletedTags = [], Errors = [],
                    TotalSize = sum_list (map FullSize tags),
                    ReclaimedSize = sum_list (map FullSize tagsToDelete)\<rparr>
      in if tagsToDelete = [] then (result, w)
         else if dryRun c then (result\<lparr>DeletedTags := map Name tagsToDelete\<rparr>, w)
         else delete_loop e (client c) repo tagsToDelete result w)"
proof (cases "tags = []")
  case True
  then show ?thesis
    by (simp add: Clean_fetched_def decide_def post_filter_Nil CleanResult_zero_def)
next
  case False
  note tags = this
  show ?thesis
  proof (cases "post_filter c tags = []")
    case True
    with tags show ?thesis
      by (simp add: Clean_fetched_def decide_def CleanResult_zero_def Let_def add_sizes_eq)
  next
    case False
    obtain k d where cl: "classify lib now c (post_filter c tags) = (k, d)"
      by (cases "classify lib now c (post_filter c tags)")
    with tags False have dec: "decide lib now c tags = (k, d)" by (simp add: decide_def)
    show ?thesis
      using tags False cl
      by (simp add: Clean_fetched_def dec CleanResult_zero_def Let_def add_sizes_eq dryRun_loop_eq)
  qed
qed

lemma of_int_sum_sint: "word_of_int (sum_list (map sint ws)) = sum_list (ws :: 64 word list)"
  by (induction ws) simp_all

lemma sint_sum_list_exact:
  assumes "- (2 ^ 63) \<le> sum_list (map sint (ws :: 64 word list))" and "sum_list (map sint ws) < 2 ^ 63"
  shows "sint (sum_list ws) = sum_list (map sint ws)"
proof -
  have "sint (sum_list ws) = sint (word_of_int (sum_list (map sint ws)) :: 64 word)"
    by (simp only: of_int_sum_sint)
  also have "\<dots> = signed_take_bit 63 (sum_list (map sint ws))"
    by (simp add: sint_sbintrunc')
  also have "\<dots> = sum_list (map sint ws)"
    using assms by (simp add: signed_take_bit_int_eq_self)
  finally show ?thesis .
qed

text \<open>
  C3. In a dry run whose delete-list is not empty, \<^verbatim>\<open>Clean\<close> returns in the world the
  listing left: no request is sent after the listing, and the trace holds no more
  \<^verbatim>\<open>DELETE\<close> request than before the run. \<^verbatim>\<open>DeletedTags\<close> is the list of the names of the
  delete-list in order, \<^verbatim>\<open>ReclaimedSize\<close> the sum of their sizes in the 64-bit arithmetic of the
  program, which is the sum of the sizes as integers whenever that sum is an \<^verbatim>\<open>int64\<close>; no
  error is recorded.
\<close>

theorem dry_run_reports_without_deleting:
  assumes "dryRun c"
      and "ListTags e (client c) repo w = Some (Inr tags, w1)"
      and "snd (decide lib now c tags) \<noteq> []"
  shows "\<exists>r. Clean lib e now c repo w = Some (Inr r, w1)
           \<and> DeletedTags r = map Name (snd (decide lib now c tags))
           \<and> ReclaimedSize r = sum_list (map FullSize (snd (decide lib now c tags)))
           \<and> Errors r = []
           \<and> delete_calls (trace w1) = delete_calls (trace w)
           \<and> (- (2 ^ 63) \<le> sum_list (map sint (map FullSize (snd (decide lib now c tags))))
                \<and> sum_list (map sint (map FullSize (snd (decide lib now c tags)))) < 2 ^ 63 \<longrightarrow>
              sint (ReclaimedSize r) = sum_list (map sint (map FullSize (snd (decide lib now c tags)))))"
proof -
  let ?del = "snd (decide lib now c tags)"
  have t: "delete_calls (trace w1) = delete_calls (trace w)"
    using ListTags_loop_deletes[OF assms(2)[unfolded ListTags_def]] by simp
  obtain r where r: "Clean lib e now c repo w = Some (Inr r, w1)"
    and fields: "DeletedTags r = map Name ?del" "ReclaimedSize r = sum_list (map FullSize ?del)"
      "Errors r = []"
    using assms by (simp add: Clean_def Clean_fetched_decide Let_def)
  have "sint (ReclaimedSize r) = sum_list (map sint (map FullSize ?del))"
    if "- (2 ^ 63) \<le> sum_list (map sint (map FullSize ?del))
        \<and> sum_list (map sint (map FullSize ?del)) < 2 ^ 63"
    using that sint_sum_list_exact[of "map FullSize ?del"] by (simp only: fields)
  with r fields t show ?thesis by blast
qed


lemma sample_tags:
  "Name tag_a = ''a''" "Name tag_b = ''b''" "Name tag_c = ''c''"
  "FullSize tag_a = 10" "FullSize tag_b = 20" "FullSize tag_c = 30"
  by (simp_all add: tag_a_def tag_b_def tag_c_def)

lemma sample_sorted:
  "Sort sample_lib LexicographicalSorter [tag_a, tag_c] = [tag_c, tag_a]"
  by (simp add: Sort_def LexicographicalSorter_Sort_def sample_lib_def insertion_sort_def sample_tags)

lemma sample_post_filter:
  "post_filter (sample_cleaner pol dry) [tag_a, tag_b, tag_c] = [tag_a, tag_c]"
  by (simp add: post_filter_def sample_cleaner_def FilterTags_def sample_tags)

lemma sample_decide_count:
  "decide sample_lib 0 (sample_cleaner (Some (CountRetentionPolicy [''c'' \<mapsto> True])) dry) [tag_a, tag_b, tag_c]
     = ([tag_c], [tag_a])"
  by (simp add: decide_def sample_post_filter classify_def)
     (simp add: sample_cleaner_def sample_sorted map_index_def sample_tags)

lemma sample_decide_none:
  "decide sample_lib 0 (sample_cleaner None dry) [tag_a, tag_b, tag_c] = ([], [tag_c, tag_a])"
  by (simp add: decide_def sample_post_filter classify_def)
     (simp add: sample_cleaner_def sample_sorted)

lemma sample_listing:
  "ListTags (scripted (ok ''p1'' # ok ''p2'' # rs)) NewClient ''u/r'' world0 =
     Some (Inr [tag_a, tag_b, tag_c],
           once NewClient (plain_request ''GET'' (tags_url NewClient ''u/r'' 2) '''')
             (once NewClient (plain_request ''GET'' (tags_url NewClient ''u/r'' 1) '''') world0))"
proof -
  let ?e = "scripted (ok ''p1'' # ok ''p2'' # rs)"
  let ?w1 = "once NewClient (plain_request ''GET'' (tags_url NewClient ''u/r'' 1) '''') world0"
  let ?w2 = "once NewClient (plain_request ''GET'' (tags_url NewClient ''u/r'' 2) '''') ?w1"
  have d1: "json_Decode_tags ?e ''p1'' = Inr page_1" by (simp add: scripted_def)
  have d2: "json_Decode_tags ?e ''p2'' = Inr page_2" by (simp add: scripted_def)
  have e1: "ListTags_page ?e NewClient ''u/r'' 1 world0 = (Inr page_1, ?w1)"
    by (rule ListTags_page_scripted_ok[OF _ _ d1]) (simp_all add: world0_def)
  have e2: "ListTags_page ?e NewClient ''u/r'' 2 ?w1 = (Inr page_2, ?w2)"
    by (rule ListTags_page_scripted_ok[OF _ _ d2]) (simp_all add: world0_def once_def)
  have E: "fetches ?e NewClient ''u/r'' 1 world0 ([page_1] @ [page_2]) = Some ?w2"
    by (simp add: e1 e2)
  have "ListTags_loop ?e NewClient ''u/r'' [] 1 world0 =
          Some (Inr ([] @ concat (map Results ([page_1] @ [page_2]))), ?w2)"
    by (rule ListTags_loop_pages[OF E]) (simp_all add: has_next_def page_1_def page_2_def)
  then show ?thesis by (simp add: ListTags_def page_1_def page_2_def)
qed

theorem classification_partitions_witness:
  "(\<forall>lt xs. mset (sort_Slice sample_lib lt xs) = mset xs)
   \<and> post_filter (sample_cleaner (Some (CountRetentionPolicy [''c'' \<mapsto> True])) False) [tag_a, tag_b, tag_c]
        = [tag_a, tag_c]
   \<and> decide sample_lib 0 (sample_cleaner (Some (CountRetentionPolicy [''c'' \<mapsto> True])) False)
        [tag_a, tag_b, tag_c] = ([tag_c], [tag_a])
   \<and> mset [tag_c] + mset [tag_a] = mset [tag_a, tag_c]
   \<and> set [tag_c] \<union> set [tag_a] = set [tag_a, tag_c]
   \<and> set [tag_c] \<inter> set [tag_a] = {}"
  using classification_partitions[OF sample_lib_perm, of 0
      "sample_cleaner (Some (CountRetentionPolicy [''c'' \<mapsto> True])) False" "[tag_a, tag_b, tag_c]"]
    sample_lib_perm
  by (simp only: sample_decide_count sample_post_filter fst_conv snd_conv) simp

theorem dry_run_reports_without_deleting_witness:
  "dryRun (sample_cleaner None True)
   \<and> ListTags (scripted [ok ''p1'', ok ''p2'']) (client (sample_cleaner None True)) ''u/r'' world0 =
       Some (Inr [tag_a, tag_b, tag_c],
             once NewClient (plain_request ''GET'' (tags_url NewClient ''u/r'' 2) '''')
               (once NewClient (plain_request ''GET'' (tags_url NewClient ''u/r'' 1) '''') world0))
   \<and> snd (decide sample_lib 0 (sample_cleaner None True) [tag_a, tag_b, tag_c]) = [tag_c, tag_a]
   \<and> (\<exists>r. Clean sample_lib (scripted [ok ''p1'', ok ''p2'']) 0 (sample_cleaner None True) ''u/r'' world0 =
             Some (Inr r,
               once NewClient (plain_request ''GET'' (tags_url NewClient ''u/r'' 2) '''')
                 (once NewClient (plain_request ''GET'' (tags_url NewClient ''u/r'' 1) '''') world0))
           \<and> DeletedTags r = [''c'', ''a'']
           \<and> ReclaimedSize r = 40
           \<and> Errors r = []
           \<and> delete_calls (trace (once NewClient (plain_request ''GET'' (tags_url NewClient ''u/r'' 2) '''')
                 (once NewClient (plain_request ''GET'' (tags_url NewClient ''u/r'' 1) '''') world0))) = [])"
proof -
  let ?c = "sample_cleaner None True" and ?e = "scripted [ok ''p1'', ok ''p2'']"
  let ?w2 = "once NewClient (plain_request ''GET'' (tags_url NewClient ''u/r'' 2) '''')
               (once NewClient (plain_request ''GET'' (tags_url NewClient ''u/r'' 1) '''') world0)"
  have h1: "dryRun ?c" by (simp add: sample_cleaner_def)
  have cl: "client ?c = NewClient" by (simp add: sample_cleaner_def)
  have h2: "ListTags ?e (client ?c) ''u/r'' world0 = Some (Inr [tag_a, tag_b, tag_c], ?w2)"
    by (simp only: cl sample_listing)
  have d: "snd (decide sample_lib 0 ?c [tag_a, tag_b, tag_c]) = [tag_c, tag_a]"
    by (simp add: sample_decide_none)
  then have h3: "snd (decide sample_lib 0 ?c [tag_a, tag_b, tag_c]) \<noteq> []" by simp
  have w0: "delete_calls (trace world0) = []" by (simp add: world0_def delete_calls_def)
  from dry_run_reports_without_deleting[OF h1 h2 h3]
  obtain r where r: "Clean sample_lib ?e 0 ?c ''u/r'' world0 = Some (Inr r, ?w2)
    \<and> DeletedTags r = map Name (snd (decide sample_lib 0 ?c [tag_a, tag_b, tag_c]))
    \<and> ReclaimedSize r = sum_list (map FullSize (snd (decide sample_lib 0 ?c [tag_a, tag_b, tag_c])))
    \<and> Errors r = []
    \<and> delete_calls (trace ?w2) = delete_calls (trace world0)
    \<and> (- (2 ^ 63) \<le> sum_list (map sint (map FullSize (snd (decide sample_lib 0 ?c [tag_a, tag_b, tag_c]))))
         \<and> sum_list (map sint (map FullSize (snd (decide sample_lib 0 ?c [tag_a, tag_b, tag_c])))) < 2 ^ 63 \<longrightarrow>
       sint (ReclaimedSize r) = sum_list (map sint (map FullSize (snd (decide sample_lib 0 ?c [tag_a, tag_b, tag_c])))))" ..
  have "Clean sample_lib ?e 0 ?c ''u/r'' world0 = Some (Inr r, ?w2)
      \<and> DeletedTags r = [''c'', ''a''] \<and> ReclaimedSize r = 40 \<and> Errors r = []
      \<and> delete_calls (trace ?w2) = []"
    using r by (simp only: d w0) (simp add: sample_tags)
  then have ex: "\<exists>r. Clean sample_lib ?e 0 ?c ''u/r'' world0 = Some (Inr r, ?w2)
      \<and> DeletedTags r = [''c'', ''a''] \<and> ReclaimedSize r = 40 \<and> Errors r = []
      \<and> delete_calls (trace ?w2) = []" by (rule exI[of _ r])
  show ?thesis
    by (intro conjI h1 h2 d ex)
qed


end
